theory Spec2Isabelle
  imports Main "HOL-Library.AList"
begin

section \<open>Python values, dictionaries and errors\<close>

text \<open>
  The records that \<^verbatim>\<open>TcShapingRuleParser\<close> (tcconfig/parser/shaping_rule.py) reads are
  Python dictionaries from strings to values. The values that matter to the code are
  \<^verbatim>\<open>None\<close>, integers and strings. A dictionary is an association list in insertion
  order; a well-formed one has pairwise different keys.
\<close>

datatype pyval = PNone | PInt int | PStr string

type_synonym dict = "(string \<times> pyval) list"

text \<open>\<^verbatim>\<open>d.get(k)\<close>: the value, or \<^verbatim>\<open>None\<close> for a missing key.\<close>

definition dict_get :: "dict \<Rightarrow> string \<Rightarrow> pyval" where
  "dict_get d k = (case map_of d k of None \<Rightarrow> PNone | Some v \<Rightarrow> v)"

text \<open>\<^verbatim>\<open>k in d\<close>.\<close>

definition dict_in :: "string \<Rightarrow> dict \<Rightarrow> bool" where
  "dict_in k d = (map_of d k \<noteq> None)"

text \<open>\<^verbatim>\<open>d.update(e)\<close>: every item of \<open>e\<close>, in order, is assigned into \<open>d\<close>.\<close>

definition dict_update :: "dict \<Rightarrow> dict \<Rightarrow> dict" where
  "dict_update d e = fold (\<lambda>(k, v). AList.update k v) e d"

text \<open>
  A rule of the firewall's mangle table, as \<^verbatim>\<open>IptablesMangleController.parse\<close> yields it:
  the code reads the attributes \<^verbatim>\<open>mark_id\<close>, \<^verbatim>\<open>source\<close>, \<^verbatim>\<open>destination\<close> and
  \<^verbatim>\<open>protocol\<close>. The source may be missing.
\<close>

record mangle =
  mark_id :: int
  source :: pyval
  destination :: string
  protocol :: string

text \<open>
  The exceptions the code can raise. \<open>ValueError_mangle_mark_not_found m\<close> is
  \<^verbatim>\<open>ValueError("mangle mark not found: {}".format(mangle))\<close>, carrying the object that the
  message formats. \<open>UnboundLocalError\<close> is what Python raises when that line reads the
  loop variable \<^verbatim>\<open>mangle\<close> and the loop never bound it. \<open>ValueError_format\<close> is
  \<^verbatim>\<open>"{:d}".format\<close> applied to a string. \<open>Fault\<close> is any failure of a collaborator
  (a show query, a record parser).
\<close>

datatype error =
    TypeError
  | UnboundLocalError
  | ValueError_mangle_mark_not_found mangle
  | ValueError_format
  | KeyError string
  | Fault string

section \<open>What the module imports\<close>

text \<open>
  Modelled from the spec: the module imports the constants \<^verbatim>\<open>Tc.Param\<close> (tcconfig._const),
  \<^verbatim>\<open>is_anywhere_network\<close> (tcconfig._common) and the three record parsers, none of which
  is among the sources at hand, and it uses typepy's integer conversion of a string. They
  are the fields of an environment that every function takes: the nine field names of
  \<^verbatim>\<open>Tc.Param\<close> (the spec's handle, parent, classId, flowId, source and destination
  network, source and destination port, protocol); the IP version of the parser
  instance; whether a network denotes any address for an IP version; the integer a
  string converts to, if any; and for each device the records that the show query and
  its record parser give (the spec's \<^verbatim>\<open>parse(device, rawText)\<close>, a sequence of records
  or a hard failure).
\<close>

record tc_env =
  HANDLE :: string
  PARENT :: string
  CLASS_ID :: string
  FLOW_ID :: string
  SRC_NETWORK :: string
  DST_NETWORK :: string
  SRC_PORT :: string
  DST_PORT :: string
  PROTOCOL :: string
  ip_version :: nat
  is_anywhere_network :: "string \<Rightarrow> nat \<Rightarrow> bool"
  int_of_str :: "string \<Rightarrow> int option"
  class_records :: "string \<Rightarrow> error + dict list"
  filter_records :: "string \<Rightarrow> error + dict list"
  qdisc_records :: "string \<Rightarrow> error + dict list"

section \<open>typepy and string formatting\<close>

text \<open>Python's whitespace among the ASCII characters.\<close>

definition is_space :: "char \<Rightarrow> bool" where
  "is_space c = (c \<in> set [CHR 0x09, CHR 0x0A, CHR 0x0B, CHR 0x0C, CHR 0x0D,
     CHR 0x1C, CHR 0x1D, CHR 0x1E, CHR 0x1F, CHR 0x20])"

definition rstrip :: "string \<Rightarrow> string" where
  "rstrip s = rev (dropWhile is_space (rev s))"

text \<open>
  \<^verbatim>\<open>typepy.is_null_string\<close>: \<^verbatim>\<open>None\<close> or a string of whitespace only.
  \<^verbatim>\<open>typepy.is_not_null_string\<close>: a string with a character that is not whitespace.
\<close>

definition is_null_string :: "pyval \<Rightarrow> bool" where
  "is_null_string v =
     (case v of PNone \<Rightarrow> True | PStr s \<Rightarrow> rstrip s = [] | PInt _ \<Rightarrow> False)"

definition is_not_null_string :: "pyval \<Rightarrow> bool" where
  "is_not_null_string v =
     (case v of PStr s \<Rightarrow> rstrip s \<noteq> [] | _ \<Rightarrow> False)"

text \<open>
  \<^verbatim>\<open>typepy.type.Integer\<close>: the integer a value stands for. \<^verbatim>\<open>Integer(v).is_type()\<close> holds
  when there is one, \<^verbatim>\<open>Integer(v).validate()\<close> raises \<^verbatim>\<open>TypeError\<close> when there is none.
\<close>

definition Integer_convert :: "tc_env \<Rightarrow> pyval \<Rightarrow> int option" where
  "Integer_convert X v =
     (case v of PInt n \<Rightarrow> Some n | PStr s \<Rightarrow> int_of_str X s | PNone \<Rightarrow> None)"

definition Integer_is_type :: "tc_env \<Rightarrow> pyval \<Rightarrow> bool" where
  "Integer_is_type X v = (Integer_convert X v \<noteq> None)"

text \<open>\<^verbatim>\<open>"{:d}".format(i)\<close> for an integer: its decimal digits.\<close>

definition digit_char :: "nat \<Rightarrow> char" where
  "digit_char d = ''0123456789'' ! d"

fun digits :: "nat \<Rightarrow> string" where
  "digits n = (if n < 10 then [digit_char n]
               else digits (n div 10) @ [digit_char (n mod 10)])"

declare digits.simps [simp del]

definition format_d :: "int \<Rightarrow> string" where
  "format_d i = (if i < 0 then CHR ''-'' # digits (nat (- i)) else digits (nat i))"

text \<open>\<^verbatim>\<open>sep.join(items)\<close>.\<close>

fun join :: "string \<Rightarrow> string list \<Rightarrow> string" where
  "join sep [] = []"
| "join sep [x] = x"
| "join sep (x # y # ys) = x @ sep @ join sep (y # ys)"

section \<open>The filter key\<close>

text \<open>
  Lines 88 to 93 of \<^verbatim>\<open>__get_filter_key\<close>: the items of the key of a filter that matched
  the mangle rule \<open>m\<close>. The destination comes first, then the source when it is a string
  that is not null, then the protocol.
\<close>

definition mangle_key_items :: "tc_env \<Rightarrow> mangle \<Rightarrow> string list" where
  "mangle_key_items X m =
     [DST_NETWORK X @ ''='' @ destination m]
     @ (case source m of
          PStr s \<Rightarrow> if is_not_null_string (PStr s) then [SRC_NETWORK X @ ''='' @ s] else []
        | _ \<Rightarrow> [])
     @ [PROTOCOL X @ ''='' @ protocol m]"

text \<open>
  Lines 84 to 97: the \<^verbatim>\<open>for ... else\<close> over the mangle table. \<open>cur\<close> is the loop
  variable \<^verbatim>\<open>mangle\<close>: unbound before the first iteration, then the rule of the latest
  iteration. The \<^verbatim>\<open>else\<close> branch formats that variable into its message.
\<close>

fun mangle_loop :: "tc_env \<Rightarrow> int \<Rightarrow> mangle list \<Rightarrow> mangle option \<Rightarrow> error + string list" where
  "mangle_loop X h [] cur =
     (case cur of
        None \<Rightarrow> Inl UnboundLocalError
      | Some m \<Rightarrow> Inl (ValueError_mangle_mark_not_found m))"
| "mangle_loop X h (m # ms) cur =
     (if mark_id m \<noteq> h then mangle_loop X h ms (Some m)
      else Inr (mangle_key_items X m))"

text \<open>
  Lines 99 to 120: the items of the key of a filter without a handle. An item is added
  for a network or a protocol that is a string and not null, and for a port that is an
  integer. Only the formatting of a port can raise, and both ports raise the same error,
  so \<open>direct_key_items\<close> looks at the two ports first and then puts the items in the
  order in which the code appends them.
\<close>

definition network_item :: "string \<Rightarrow> pyval \<Rightarrow> string list" where
  "network_item name v =
     (case v of PStr s \<Rightarrow> if is_not_null_string (PStr s) then [name @ ''='' @ s] else []
      | _ \<Rightarrow> [])"

definition src_network_item :: "tc_env \<Rightarrow> pyval \<Rightarrow> string list" where
  "src_network_item X v =
     (case v of
        PStr s \<Rightarrow>
          if is_not_null_string (PStr s) \<and> \<not> is_anywhere_network X s (ip_version X)
          then [SRC_NETWORK X @ ''='' @ s] else []
      | _ \<Rightarrow> [])"

definition port_item :: "tc_env \<Rightarrow> string \<Rightarrow> pyval \<Rightarrow> error + string list" where
  "port_item X name v =
     (if Integer_is_type X v then
        (case v of PInt n \<Rightarrow> Inr [name @ ''='' @ format_d n] | _ \<Rightarrow> Inl ValueError_format)
      else Inr [])"

definition direct_key_items :: "tc_env \<Rightarrow> dict \<Rightarrow> error + string list" where
  "direct_key_items X f =
     (case port_item X (SRC_PORT X) (dict_get f (SRC_PORT X)) of
        Inl e \<Rightarrow> Inl e
      | Inr sp \<Rightarrow>
          (case port_item X (DST_PORT X) (dict_get f (DST_PORT X)) of
             Inl e \<Rightarrow> Inl e
           | Inr dp \<Rightarrow>
               Inr (src_network_item X (dict_get f (SRC_NETWORK X))
                    @ network_item (DST_NETWORK X) (dict_get f (DST_NETWORK X))
                    @ sp @ dp
                    @ network_item (PROTOCOL X) (dict_get f (PROTOCOL X)))))"

text \<open>
  \<^verbatim>\<open>__get_filter_key\<close>, lines 73 to 122. \<open>M\<close> is what
  \<^verbatim>\<open>self.__iptables_ctrl.parse()\<close> yields, in table order.
\<close>

definition get_filter_key :: "tc_env \<Rightarrow> mangle list \<Rightarrow> dict \<Rightarrow> error + string" where
  "get_filter_key X M f =
     (if dict_in (HANDLE X) f then
        (case Integer_convert X (dict_get f (HANDLE X)) of
           None \<Rightarrow> Inl TypeError
         | Some h \<Rightarrow>
             (case mangle_loop X h M None of
                Inl e \<Rightarrow> Inl e
              | Inr items \<Rightarrow> Inr (join '', '' items)))
      else
        (case direct_key_items X f of
           Inl e \<Rightarrow> Inl e
         | Inr items \<Rightarrow> Inr (join '', '' items)))"

section \<open>The shaping rules of a device\<close>

text \<open>
  \<^verbatim>\<open>__strip_qdisc_param\<close>, lines 193 to 207: a copy of the record without the
  keys \<^verbatim>\<open>parent\<close> and \<^verbatim>\<open>handle\<close>; a key that is missing is passed over (the
  \<^verbatim>\<open>KeyError\<close> is caught).
\<close>

definition strip_qdisc_param :: "tc_env \<Rightarrow> dict \<Rightarrow> dict" where
  "strip_qdisc_param X q = AList.delete (HANDLE X) (AList.delete (PARENT X) q)"

text \<open>
  The test of lines 149 to 151 and 160 to 162, negated: the value is the filter's
  \<^verbatim>\<open>flowid\<close> or its \<^verbatim>\<open>classid\<close>, each read with \<^verbatim>\<open>get\<close>.
\<close>

definition id_matches :: "tc_env \<Rightarrow> dict \<Rightarrow> pyval \<Rightarrow> bool" where
  "id_matches X f v = (v = dict_get f (FLOW_ID X) \<or> v = dict_get f (CLASS_ID X))"

text \<open>Lines 145 to 154: the loop over the qdisc records, \<open>sr\<close> being \<^verbatim>\<open>shaping_rule\<close>.\<close>

fun qdisc_loop :: "tc_env \<Rightarrow> dict \<Rightarrow> dict list \<Rightarrow> dict \<Rightarrow> dict" where
  "qdisc_loop X f [] sr = sr"
| "qdisc_loop X f (q # qs) sr =
     (if \<not> id_matches X f (dict_get q (PARENT X)) then qdisc_loop X f qs sr
      else qdisc_loop X f qs (dict_update sr (strip_qdisc_param X q)))"

text \<open>
  Lines 156 to 167: the loop over the class records. \<^verbatim>\<open>del work_class_param[...]\<close>
  raises \<^verbatim>\<open>KeyError\<close> when the record has no class id.
\<close>

fun class_loop :: "tc_env \<Rightarrow> dict \<Rightarrow> dict list \<Rightarrow> dict \<Rightarrow> error + dict" where
  "class_loop X f [] sr = Inr sr"
| "class_loop X f (c # cs) sr =
     (if \<not> id_matches X f (dict_get c (CLASS_ID X)) then class_loop X f cs sr
      else if \<not> dict_in (CLASS_ID X) c then Inl (KeyError (CLASS_ID X))
      else class_loop X f cs (dict_update sr (AList.delete (CLASS_ID X) c)))"

text \<open>Lines 137 and 145 to 167: the merged parameters of one filter.\<close>

definition shaping_rule_of :: "tc_env \<Rightarrow> dict list \<Rightarrow> dict list \<Rightarrow> dict \<Rightarrow> error + dict" where
  "shaping_rule_of X cs qs f = class_loop X f cs (qdisc_loop X f qs [])"

type_synonym rule_map = "(string \<times> dict) list"

text \<open>
  Lines 132 to 179: the loop over the filter records, \<open>srm\<close> being
  \<^verbatim>\<open>shaping_rule_mapping\<close>. The calls of the logger leave no trace in the result.
\<close>

fun filter_loop ::
  "tc_env \<Rightarrow> mangle list \<Rightarrow> dict list \<Rightarrow> dict list \<Rightarrow> dict list \<Rightarrow> rule_map \<Rightarrow> error + rule_map" where
  "filter_loop X M cs qs [] srm = Inr srm"
| "filter_loop X M cs qs (f # fs) srm =
     (case get_filter_key X M f of
        Inl e \<Rightarrow> Inl e
      | Inr k \<Rightarrow>
          if is_null_string (PStr k) then filter_loop X M cs qs fs srm
          else
            (case shaping_rule_of X cs qs f of
               Inl e \<Rightarrow> Inl e
             | Inr sr \<Rightarrow>
                 if sr = [] then filter_loop X M cs qs fs srm
                 else filter_loop X M cs qs fs (AList.update k sr srm)))"

section \<open>The relational store and the two directions\<close>

datatype subcommand = CLASS | FILTER | QDISC

datatype direction = OUTGOING | INCOMING

text \<open>
  The in-memory database \<^verbatim>\<open>self.__con\<close> that \<^verbatim>\<open>__init__\<close> creates once (line 37) and
  hands to the three record parsers: the records inserted so far, each with its kind and
  its device.
\<close>

type_synonym store = "(subcommand \<times> string \<times> dict) list"

text \<open>
  Modelled from the spec: \<^verbatim>\<open>TcClassParser\<close>, \<^verbatim>\<open>TcFilterParser\<close> and \<^verbatim>\<open>TcQdiscParser\<close>
  (tcconfig/parser/_class.py, _filter.py, _qdisc.py) and \<^verbatim>\<open>run_tc_show\<close> are not among
  the sources at hand. After sections 4.1 and 4.2 of the spec, \<^verbatim>\<open>parse(device, rawText)\<close>
  gives the sequence of the records of that text, each tagged with its device, and the
  relational store accepts them as inserted records; a failure of the query or of the
  parse aborts.
\<close>

definition parse_tc ::
  "subcommand \<Rightarrow> (string \<Rightarrow> error + dict list) \<Rightarrow> store \<Rightarrow> string \<Rightarrow> (error + dict list) \<times> store" where
  "parse_tc sub records con device =
     (case records device of
        Inl e \<Rightarrow> (Inl e, con)
      | Inr rs \<Rightarrow> (Inr rs, con @ map (\<lambda>r. (sub, device, r)) rs))"

text \<open>
  \<^verbatim>\<open>__get_shaping_rule\<close>, lines 124 to 179, with the store passed along. The device is
  a value: the IFB device of a parser instance may be \<^verbatim>\<open>None\<close>.
\<close>

definition get_shaping_rule ::
  "tc_env \<Rightarrow> mangle list \<Rightarrow> store \<Rightarrow> pyval \<Rightarrow> (error + rule_map) \<times> store" where
  "get_shaping_rule X M con device =
     (if is_null_string device then (Inr [], con)
      else
        (case device of
           PStr dev \<Rightarrow>
             (case parse_tc CLASS (class_records X) con dev of
                (Inl e, con1) \<Rightarrow> (Inl e, con1)
              | (Inr cs, con1) \<Rightarrow>
                  (case parse_tc FILTER (filter_records X) con1 dev of
                     (Inl e, con2) \<Rightarrow> (Inl e, con2)
                   | (Inr fs, con2) \<Rightarrow>
                       (case parse_tc QDISC (qdisc_records X) con2 dev of
                          (Inl e, con3) \<Rightarrow> (Inl e, con3)
                        | (Inr qs, con3) \<Rightarrow> (filter_loop X M cs qs fs [], con3))))
         | _ \<Rightarrow> (Inl TypeError, con)))"

type_synonym tc_parameter = "(string \<times> (direction \<times> rule_map) list) list"

text \<open>
  \<^verbatim>\<open>get_tc_parameter\<close>, lines 47 to 55: the dictionary display evaluates the outgoing
  direction first, then the incoming one over \<^verbatim>\<open>self.__ifb_device\<close>, on the same store.
\<close>

definition get_tc_parameter ::
  "tc_env \<Rightarrow> mangle list \<Rightarrow> store \<Rightarrow> string \<Rightarrow> pyval \<Rightarrow> (error + tc_parameter) \<times> store" where
  "get_tc_parameter X M con device ifb_device =
     (case get_shaping_rule X M con (PStr device) of
        (Inl e, con1) \<Rightarrow> (Inl e, con1)
      | (Inr out, con1) \<Rightarrow>
          (case get_shaping_rule X M con1 ifb_device of
             (Inl e, con2) \<Rightarrow> (Inl e, con2)
           | (Inr inc, con2) \<Rightarrow>
               (Inr [(device, [(OUTGOING, out), (INCOMING, inc)])], con2)))"

section \<open>Records and an environment for the examples\<close>

text \<open>
  One qdisc under class 1:10, two classes, and two filters that resolve to the same key
  and point to the two classes.
\<close>

definition example_qdiscs :: "dict list" where
  "example_qdiscs =
     [[(''parent'', PStr ''1:10''), (''handle'', PStr ''8001:''),
       (''delay'', PStr ''100ms''), (''limit'', PStr ''10'')]]"

definition example_classes :: "dict list" where
  "example_classes =
     [[(''classid'', PStr ''1:10''), (''rate'', PStr ''1Mbit''), (''limit'', PStr ''20'')],
      [(''classid'', PStr ''1:20''), (''rate'', PStr ''2Mbit'')]]"

definition example_filter_a :: dict where
  "example_filter_a =
     [(''flowid'', PStr ''1:10''), (''dst-network'', PStr ''192.0.2.0/24''),
      (''protocol'', PStr ''ip'')]"

definition example_filter_b :: dict where
  "example_filter_b =
     [(''flowid'', PStr ''1:20''), (''dst-network'', PStr ''192.0.2.0/24''),
      (''protocol'', PStr ''ip'')]"

text \<open>
  The names of the fields as tcconfig spells them, the any-address network of IPv4, no
  string that stands for an integer, and two devices: eth0 with the two filters, and
  ifb0 with the second filter only.
\<close>

definition example_env :: tc_env where
  "example_env = \<lparr>HANDLE = ''handle'', PARENT = ''parent'', CLASS_ID = ''classid'',
     FLOW_ID = ''flowid'', SRC_NETWORK = ''src-network'', DST_NETWORK = ''dst-network'',
     SRC_PORT = ''src-port'', DST_PORT = ''dst-port'', PROTOCOL = ''protocol'',
     ip_version = 4,
     is_anywhere_network = (\<lambda>s v. s = ''0.0.0.0/0''),
     int_of_str = (\<lambda>s. None),
     class_records = (\<lambda>d. if d = ''eth0'' \<or> d = ''ifb0'' then Inr example_classes else Inr []),
     filter_records = (\<lambda>d. if d = ''eth0'' then Inr [example_filter_a, example_filter_b]
                           else if d = ''ifb0'' then Inr [example_filter_b] else Inr []),
     qdisc_records = (\<lambda>d. if d = ''eth0'' then Inr example_qdiscs else Inr [])\<rparr>"

section \<open>The claims in the words of the specification\<close>

text \<open>
  A key whose fields stand in the order source network, destination network, source
  port, destination port, protocol, each field present or not.
\<close>

definition field :: "string \<Rightarrow> string option \<Rightarrow> string list" where
  "field name v = (case v of None \<Rightarrow> [] | Some s \<Rightarrow> [name @ ''='' @ s])"

definition ordered_key ::
  "tc_env \<Rightarrow> string option \<Rightarrow> string option \<Rightarrow> string option \<Rightarrow> string option \<Rightarrow> string option \<Rightarrow> string" where
  "ordered_key X src dst sport dport proto =
     join '', '' (field (SRC_NETWORK X) src @ field (DST_NETWORK X) dst
       @ field (SRC_PORT X) sport @ field (DST_PORT X) dport @ field (PROTOCOL X) proto)"

text \<open>
  The attributes of a record as a key shows them: a string that is not null, a source
  network that moreover is not the any-address network, an integer port in decimal.
\<close>

definition str_attr :: "pyval \<Rightarrow> string option" where
  "str_attr v = (case v of PStr s \<Rightarrow> if rstrip s = [] then None else Some s | _ \<Rightarrow> None)"

definition src_attr :: "tc_env \<Rightarrow> pyval \<Rightarrow> string option" where
  "src_attr X v =
     (case str_attr v of
        None \<Rightarrow> None
      | Some s \<Rightarrow> if is_anywhere_network X s (ip_version X) then None else Some s)"

definition port_attr :: "pyval \<Rightarrow> string option" where
  "port_attr v = (case v of PInt n \<Rightarrow> Some (format_d n) | _ \<Rightarrow> None)"

text \<open>
  The merged parameters of a filter as the specification words them: the union of the
  parameters of every qdisc record whose parent is the filter's flow or class
  identifier, without parent and handle, updated by the parameters of every class record
  whose class id is that identifier, without the class id. A record that has no parent
  (no class id) has none that equals an identifier: only a parent that is there, and
  that the filter has as its flow id or its class id, counts.
\<close>

definition spec_qdisc_part :: "tc_env \<Rightarrow> dict list \<Rightarrow> dict \<Rightarrow> (string \<rightharpoonup> pyval)" where
  "spec_qdisc_part X qs f =
     foldl (++) Map.empty
       (map (\<lambda>q. map_of q |` (- {PARENT X, HANDLE X}))
          (filter (\<lambda>q. dict_get q (PARENT X) \<noteq> PNone \<and>
                      dict_get q (PARENT X) \<in> {dict_get f (FLOW_ID X), dict_get f (CLASS_ID X)}) qs))"

definition spec_class_part :: "tc_env \<Rightarrow> dict list \<Rightarrow> dict \<Rightarrow> (string \<rightharpoonup> pyval)" where
  "spec_class_part X cs f =
     foldl (++) Map.empty
       (map (\<lambda>c. map_of c |` (- {CLASS_ID X}))
          (filter (\<lambda>c. dict_get c (CLASS_ID X) \<noteq> PNone \<and>
                      dict_get c (CLASS_ID X) \<in> {dict_get f (FLOW_ID X), dict_get f (CLASS_ID X)}) cs))"

definition spec_merged :: "tc_env \<Rightarrow> dict list \<Rightarrow> dict list \<Rightarrow> dict \<Rightarrow> (string \<rightharpoonup> pyval)" where
  "spec_merged X cs qs f = spec_qdisc_part X qs f ++ spec_class_part X cs f"

section \<open>The join over records that are shared objects\<close>

text \<open>
  The lists that the parsers return hold references to dictionary objects, and the join
  works on objects: \<^verbatim>\<open>copy.deepcopy\<close> creates one, \<^verbatim>\<open>del\<close> and \<^verbatim>\<open>update\<close> change one in
  place. A heap maps an address to the dictionary that lives there; \<open>fresh\<close> is the next
  address not yet in use. The values of a dictionary are immutable, so a deep copy is a
  new object with the same items.
\<close>

record heap =
  cells :: "nat \<Rightarrow> dict"
  fresh :: nat

definition h_new :: "heap \<Rightarrow> dict \<Rightarrow> nat \<times> heap" where
  "h_new h d = (fresh h, \<lparr>cells = (cells h)(fresh h := d), fresh = Suc (fresh h)\<rparr>)"

definition h_deepcopy :: "heap \<Rightarrow> nat \<Rightarrow> nat \<times> heap" where
  "h_deepcopy h a = h_new h (cells h a)"

definition h_del :: "heap \<Rightarrow> nat \<Rightarrow> string \<Rightarrow> error + heap" where
  "h_del h a k =
     (if dict_in k (cells h a)
      then Inr (h\<lparr>cells := (cells h)(a := AList.delete k (cells h a))\<rparr>)
      else Inl (KeyError k))"

definition h_update :: "heap \<Rightarrow> nat \<Rightarrow> nat \<Rightarrow> heap" where
  "h_update h a b = h\<lparr>cells := (cells h)(a := dict_update (cells h a) (cells h b))\<rparr>"

text \<open>\<^verbatim>\<open>__strip_qdisc_param\<close> on the object at \<open>a\<close>: the address of the stripped copy.\<close>

definition h_strip_qdisc_param :: "tc_env \<Rightarrow> heap \<Rightarrow> nat \<Rightarrow> nat \<times> heap" where
  "h_strip_qdisc_param X h a =
     (case h_deepcopy h a of
        (w, h1) \<Rightarrow>
          let h2 = (case h_del h1 w (PARENT X) of Inl e \<Rightarrow> h1 | Inr h' \<Rightarrow> h');
              h3 = (case h_del h2 w (HANDLE X) of Inl e \<Rightarrow> h2 | Inr h' \<Rightarrow> h')
          in (w, h3))"

fun h_qdisc_loop :: "tc_env \<Rightarrow> nat \<Rightarrow> nat list \<Rightarrow> nat \<Rightarrow> heap \<Rightarrow> heap" where
  "h_qdisc_loop X f [] sr h = h"
| "h_qdisc_loop X f (q # qs) sr h =
     (if \<not> id_matches X (cells h f) (dict_get (cells h q) (PARENT X))
      then h_qdisc_loop X f qs sr h
      else (case h_strip_qdisc_param X h q of
              (w, h1) \<Rightarrow> h_qdisc_loop X f qs sr (h_update h1 sr w)))"

fun h_class_loop :: "tc_env \<Rightarrow> nat \<Rightarrow> nat list \<Rightarrow> nat \<Rightarrow> heap \<Rightarrow> error option \<times> heap" where
  "h_class_loop X f [] sr h = (None, h)"
| "h_class_loop X f (c # cs) sr h =
     (if \<not> id_matches X (cells h f) (dict_get (cells h c) (CLASS_ID X))
      then h_class_loop X f cs sr h
      else (case h_deepcopy h c of
              (w, h1) \<Rightarrow>
                (case h_del h1 w (CLASS_ID X) of
                   Inl e \<Rightarrow> (Some e, h1)
                 | Inr h2 \<Rightarrow> h_class_loop X f cs sr (h_update h2 sr w))))"

text \<open>
  The loop of lines 132 to 179 on objects: \<open>cs\<close>, \<open>qs\<close> and \<open>fs\<close> are the addresses of
  the parsed records, and the mapping holds the address of each merged dictionary.
\<close>

fun h_filter_loop ::
  "tc_env \<Rightarrow> mangle list \<Rightarrow> nat list \<Rightarrow> nat list \<Rightarrow> nat list \<Rightarrow> (string \<times> nat) list \<Rightarrow> heap
     \<Rightarrow> (error + (string \<times> nat) list) \<times> heap" where
  "h_filter_loop X M cs qs [] srm h = (Inr srm, h)"
| "h_filter_loop X M cs qs (f # fs) srm h =
     (case h_new h [] of
        (sr, h0) \<Rightarrow>
          (case get_filter_key X M (cells h0 f) of
             Inl e \<Rightarrow> (Inl e, h0)
           | Inr k \<Rightarrow>
               if is_null_string (PStr k) then h_filter_loop X M cs qs fs srm h0
               else
                 (case h_class_loop X f cs sr (h_qdisc_loop X f qs sr h0) of
                    (Some e, h2) \<Rightarrow> (Inl e, h2)
                  | (None, h2) \<Rightarrow>
                      if cells h2 sr = [] then h_filter_loop X M cs qs fs srm h2
                      else h_filter_loop X M cs qs fs (AList.update k sr srm) h2)))"

text \<open>What a mapping of addresses stands for in a heap.\<close>

definition deref :: "heap \<Rightarrow> (string \<times> nat) list \<Rightarrow> rule_map" where
  "deref h srm = map (\<lambda>(k, a). (k, cells h a)) srm"

text \<open>
  A heap with one qdisc record, one class record and two filter records that both point
  to class 1:10.
\<close>

definition example_heap :: heap where
  "example_heap =
     \<lparr>cells = (\<lambda>a. [])
        (0 := [(''parent'', PStr ''1:10''), (''handle'', PStr ''8001:''), (''delay'', PStr ''100ms'')],
         1 := [(''classid'', PStr ''1:10''), (''rate'', PStr ''1Mbit'')],
         2 := [(''flowid'', PStr ''1:10''), (''dst-network'', PStr ''192.0.2.0/24'')],
         3 := [(''flowid'', PStr ''1:10''), (''dst-network'', PStr ''198.51.100.0/24'')]),
      fresh = 4\<rparr>"

section \<open>Evaluation on concrete inputs\<close>

lemmas key_eval =
  get_filter_key_def example_env_def dict_in_def dict_get_def Integer_convert_def
  Integer_is_type_def direct_key_items_def port_item_def src_network_item_def
  network_item_def is_not_null_string_def is_null_string_def rstrip_def is_space_def
  format_d_def mangle_key_items_def digits.simps digit_char_def

lemmas join_eval =
  shaping_rule_of_def id_matches_def strip_qdisc_param_def dict_update_def
  example_qdiscs_def example_classes_def example_filter_a_def example_filter_b_def

section \<open>Resolution of a handle against the mangle table\<close>

lemma mangle_loop_first:
  "\<forall>r\<in>set pre. mark_id r \<noteq> h \<Longrightarrow> mark_id m = h \<Longrightarrow>
   mangle_loop X h (pre @ m # post) cur = Inr (mangle_key_items X m)"
  by (induction pre arbitrary: cur) auto

lemma mangle_loop_unmatched:
  "\<forall>r\<in>set M. mark_id r \<noteq> h \<Longrightarrow>
   mangle_loop X h M cur =
     (case (if M = [] then cur else Some (last M)) of
        None \<Rightarrow> Inl UnboundLocalError
      | Some m \<Rightarrow> Inl (ValueError_mangle_mark_not_found m))"
  by (induction M arbitrary: cur) auto

text \<open>
  A handle that no mangle rule carries always aborts the key resolution, and with it the
  loop over the filters: no such record is passed over in silence.
\<close>

lemma unmatched_handle_aborts:
  assumes "dict_in (HANDLE X) f" and "\<forall>r\<in>set M. Some (mark_id r) \<noteq> Integer_convert X (dict_get f (HANDLE X))"
  shows "\<exists>e. get_filter_key X M f = Inl e"
proof (cases "Integer_convert X (dict_get f (HANDLE X))")
  case None
  with assms(1) show ?thesis by (simp add: get_filter_key_def)
next
  case (Some h)
  with assms(2) have "\<forall>r\<in>set M. mark_id r \<noteq> h" by auto
  from mangle_loop_unmatched [OF this, of X None] obtain e
    where "mangle_loop X h M None = Inl e"
    by (auto split: option.splits if_splits)
  with assms(1) Some show ?thesis by (simp add: get_filter_key_def)
qed

lemma filter_loop_aborts:
  "get_filter_key X M f = Inl e \<Longrightarrow> \<forall>g\<in>set pre. \<exists>k. get_filter_key X M g = Inr k \<Longrightarrow>
   \<exists>e'. filter_loop X M cs qs (pre @ f # post) srm = Inl e'"
proof (induction pre arbitrary: srm)
  case Nil
  then show ?case by simp
next
  case (Cons g pre)
  then obtain k where k: "get_filter_key X M g = Inr k" by auto
  from Cons have ih: "\<And>srm. \<exists>e'. filter_loop X M cs qs (pre @ f # post) srm = Inl e'" by auto
  show ?case
    using k ih by (auto split: sum.splits)
qed

text \<open>
  C1. A filter record with a handle that no mangle rule carries: the resolution aborts,
  but the error does not name the filter record. Over an empty mangle table the
  \<^verbatim>\<open>else\<close> branch reads the loop variable that was never bound, so the error is
  Python's \<^verbatim>\<open>UnboundLocalError\<close>; over a table without a match the \<^verbatim>\<open>ValueError\<close>
  formats the last mangle rule of the table.
\<close>

theorem unmatched_handle_error:
  "get_filter_key example_env [] [(''handle'', PInt 100)] = Inl UnboundLocalError \<and>
   get_filter_key example_env
     [\<lparr>mark_id = 7, source = PNone, destination = ''192.0.2.0/24'', protocol = ''tcp''\<rparr>]
     [(''handle'', PInt 100)]
   = Inl (ValueError_mangle_mark_not_found
       \<lparr>mark_id = 7, source = PNone, destination = ''192.0.2.0/24'', protocol = ''tcp''\<rparr>)"
  by (simp add: key_eval)

text \<open>
  C4. When several mangle rules carry the mark of a filter's handle, the key is built
  from the first of them in table order: whatever rules follow it, matching or not, the
  key is that of the first match.
\<close>

theorem first_matching_mangle_rule:
  assumes "dict_in (HANDLE X) f"
    and "Integer_convert X (dict_get f (HANDLE X)) = Some h"
    and "\<forall>r\<in>set pre. mark_id r \<noteq> h"
    and "mark_id m = h"
  shows "get_filter_key X (pre @ m # post) f = Inr (join '', '' (mangle_key_items X m))"
  using assms by (simp add: get_filter_key_def mangle_loop_first)

theorem first_matching_mangle_rule_witness:
  "dict_in (HANDLE example_env) [(''handle'', PInt 100)] \<and>
   Integer_convert example_env (dict_get [(''handle'', PInt 100)] (HANDLE example_env)) = Some 100 \<and>
   mark_id \<lparr>mark_id = 7, source = PNone, destination = ''198.51.100.0/24'', protocol = ''udp''\<rparr> \<noteq> 100 \<and>
   get_filter_key example_env
     [\<lparr>mark_id = 7, source = PNone, destination = ''198.51.100.0/24'', protocol = ''udp''\<rparr>,
      \<lparr>mark_id = 100, source = PNone, destination = ''192.0.2.0/24'', protocol = ''tcp''\<rparr>,
      \<lparr>mark_id = 100, source = PStr ''10.0.0.0/8'', destination = ''203.0.113.0/24'', protocol = ''all''\<rparr>]
     [(''handle'', PInt 100)]
   = Inr ''dst-network=192.0.2.0/24, protocol=tcp''"
  using first_matching_mangle_rule [of example_env "[(''handle'', PInt 100)]" 100
    "[\<lparr>mark_id = 7, source = PNone, destination = ''198.51.100.0/24'', protocol = ''udp''\<rparr>]"
    "\<lparr>mark_id = 100, source = PNone, destination = ''192.0.2.0/24'', protocol = ''tcp''\<rparr>"
    "[\<lparr>mark_id = 100, source = PStr ''10.0.0.0/8'', destination = ''203.0.113.0/24'', protocol = ''all''\<rparr>]"]
  by (simp add: key_eval)

section \<open>The merged parameters of a filter\<close>

lemma map_of_dict_update:
  "distinct (map fst e) \<Longrightarrow> map_of (dict_update d e) = map_of d ++ map_of e"
proof (induction e arbitrary: d)
  case Nil
  then show ?case by (simp add: dict_update_def)
next
  case (Cons p e)
  obtain k v where p: "p = (k, v)" by (cases p)
  from Cons.prems p have notin: "map_of e k = None" and d: "distinct (map fst e)"
    by (auto simp: map_of_eq_None_iff)
  have "map_of (dict_update d (p # e)) = map_of (dict_update (AList.update k v d) e)"
    by (simp add: dict_update_def p)
  also have "\<dots> = (map_of d)(k \<mapsto> v) ++ map_of e"
    by (simp only: Cons.IH [OF d] update_conv')
  also have "\<dots> = map_of d ++ map_of (p # e)"
    using notin by (auto simp: p map_add_def fun_eq_iff split: option.splits)
  finally show ?case .
qed

lemma keys_dict_update:
  "fst ` set (dict_update d e) = fst ` set d \<union> fst ` set e"
proof (induction e arbitrary: d)
  case Nil
  then show ?case by (simp add: dict_update_def)
next
  case (Cons p e)
  have "dict_update d (p # e) = dict_update (AList.update (fst p) (snd p) d) e"
    by (simp add: dict_update_def case_prod_beta)
  then show ?case using Cons.IH by (auto simp: dom_update)
qed

lemma distinct_dict_update:
  "distinct (map fst d) \<Longrightarrow> distinct (map fst (dict_update d e))"
proof (induction e arbitrary: d)
  case Nil
  then show ?case by (simp add: dict_update_def)
next
  case (Cons p e)
  have "dict_update d (p # e) = dict_update (AList.update (fst p) (snd p) d) e"
    by (simp add: dict_update_def case_prod_beta)
  then show ?case using Cons by (simp add: distinct_update)
qed

lemma map_of_strip_qdisc_param:
  "map_of (strip_qdisc_param X q) = map_of q |` (- {PARENT X, HANDLE X})"
  by (auto simp: strip_qdisc_param_def delete_conv' restrict_map_def fun_eq_iff)

lemma distinct_strip_qdisc_param:
  "distinct (map fst q) \<Longrightarrow> distinct (map fst (strip_qdisc_param X q))"
  by (simp add: strip_qdisc_param_def distinct_delete)

lemma map_of_delete_restrict:
  "map_of (AList.delete k c) = map_of c |` (- {k})"
  by (auto simp: delete_conv' restrict_map_def fun_eq_iff)

lemma foldl_map_add: "foldl (++) a xs = a ++ foldl (++) Map.empty xs"
proof (induction xs arbitrary: a)
  case Nil
  then show ?case by simp
next
  case (Cons x xs)
  have "foldl (++) a (x # xs) = (a ++ x) ++ foldl (++) Map.empty xs"
    using Cons.IH [of "a ++ x"] by simp
  also have "\<dots> = a ++ foldl (++) Map.empty (x # xs)"
    using Cons.IH [of "Map.empty ++ x"] by simp
  finally show ?case .
qed

lemma id_matches_iff:
  "id_matches X f v \<longleftrightarrow> v \<in> {dict_get f (FLOW_ID X), dict_get f (CLASS_ID X)}"
  by (auto simp: id_matches_def)

lemma qdisc_loop_spec:
  "\<forall>q\<in>set qs. distinct (map fst q) \<and> dict_get q (PARENT X) \<noteq> PNone \<Longrightarrow>
   map_of (qdisc_loop X f qs sr) = map_of sr ++ spec_qdisc_part X qs f"
proof (induction qs arbitrary: sr)
  case Nil
  then show ?case by (simp add: spec_qdisc_part_def)
next
  case (Cons q qs)
  then have ih: "\<And>sr. map_of (qdisc_loop X f qs sr) = map_of sr ++ spec_qdisc_part X qs f"
    and dq: "distinct (map fst q)" and pq: "dict_get q (PARENT X) \<noteq> PNone" by auto
  show ?case
  proof (cases "id_matches X f (dict_get q (PARENT X))")
    case False
    then show ?thesis using ih by (simp add: spec_qdisc_part_def id_matches_iff)
  next
    case True
    have "map_of (qdisc_loop X f (q # qs) sr)
        = (map_of sr ++ map_of q |` (- {PARENT X, HANDLE X})) ++ spec_qdisc_part X qs f"
      using True ih dq
      by (simp add: map_of_dict_update distinct_strip_qdisc_param map_of_strip_qdisc_param)
    also have "\<dots> = map_of sr ++ spec_qdisc_part X (q # qs) f"
      using True pq
      by (simp add: spec_qdisc_part_def id_matches_iff
          foldl_map_add [of "map_of q |` (- {PARENT X, HANDLE X})"])
    finally show ?thesis .
  qed
qed

lemma class_loop_spec:
  "\<forall>c\<in>set cs. distinct (map fst c) \<and> dict_get c (CLASS_ID X) \<noteq> PNone \<Longrightarrow>
   class_loop X f cs sr = Inr r \<Longrightarrow>
   map_of r = map_of sr ++ spec_class_part X cs f"
proof (induction cs arbitrary: sr)
  case Nil
  then show ?case by (simp add: spec_class_part_def)
next
  case (Cons c cs)
  then have dc: "distinct (map fst c)" and pc: "dict_get c (CLASS_ID X) \<noteq> PNone" by auto
  show ?case
  proof (cases "id_matches X f (dict_get c (CLASS_ID X))")
    case False
    then show ?thesis using Cons by (simp add: spec_class_part_def id_matches_iff)
  next
    case True
    with Cons.prems have r: "class_loop X f cs (dict_update sr (AList.delete (CLASS_ID X) c)) = Inr r"
      by (simp split: if_splits)
    have "map_of r = (map_of sr ++ map_of c |` (- {CLASS_ID X})) ++ spec_class_part X cs f"
      using Cons.IH [OF _ r] Cons.prems(1) dc
      by (simp add: map_of_dict_update distinct_delete map_of_delete_restrict)
    also have "\<dots> = map_of sr ++ spec_class_part X (c # cs) f"
      using True pc
      by (simp add: spec_class_part_def id_matches_iff
          foldl_map_add [of "map_of c |` (- {CLASS_ID X})"])
    finally show ?thesis .
  qed
qed

lemma shaping_rule_of_spec:
  assumes "\<forall>q\<in>set qs. distinct (map fst q) \<and> dict_get q (PARENT X) \<noteq> PNone"
    and "\<forall>c\<in>set cs. distinct (map fst c) \<and> dict_get c (CLASS_ID X) \<noteq> PNone"
    and "shaping_rule_of X cs qs f = Inr acc"
  shows "map_of acc = spec_merged X cs qs f"
  using class_loop_spec [OF assms(2) assms(3) [unfolded shaping_rule_of_def]]
    qdisc_loop_spec [OF assms(1), where f = f and sr = "[]"]
  by (simp add: spec_merged_def)

section \<open>The loop over the filters\<close>

lemma rstrip_Nil_iff: "rstrip s = [] \<longleftrightarrow> (\<forall>c\<in>set s. is_space c)"
  by (auto simp: rstrip_def dropWhile_eq_Nil_conv)

lemma eq_not_space: "\<not> is_space CHR ''=''"
  by (simp add: is_space_def)

lemma join_has_char:
  "items \<noteq> [] \<Longrightarrow> \<forall>i\<in>set items. c \<in> set i \<Longrightarrow> c \<in> set (join sep items)"
  by (induction sep items rule: join.induct) auto

lemma mangle_key_items_eq: "i \<in> set (mangle_key_items X m) \<Longrightarrow> CHR ''='' \<in> set i"
  by (auto simp: mangle_key_items_def split: pyval.splits if_splits)

lemma mangle_key_items_nonempty: "mangle_key_items X m \<noteq> []"
  by (simp add: mangle_key_items_def)

lemma mangle_loop_Inr:
  "mangle_loop X h M cur = Inr items \<Longrightarrow> \<exists>m\<in>set M. mark_id m = h \<and> items = mangle_key_items X m"
  by (induction M arbitrary: cur) (auto split: option.splits if_splits)

lemma network_item_eq: "i \<in> set (network_item name v) \<Longrightarrow> CHR ''='' \<in> set i"
  by (cases v) (auto simp: network_item_def split: if_splits)

lemma src_network_item_eq: "i \<in> set (src_network_item X v) \<Longrightarrow> CHR ''='' \<in> set i"
  by (cases v) (auto simp: src_network_item_def split: if_splits)

lemma port_item_eq: "port_item X name v = Inr its \<Longrightarrow> i \<in> set its \<Longrightarrow> CHR ''='' \<in> set i"
  by (cases v) (auto simp: port_item_def split: if_splits)

lemma direct_key_items_Inr:
  "direct_key_items X f = Inr items \<Longrightarrow>
   \<exists>sp dp. port_item X (SRC_PORT X) (dict_get f (SRC_PORT X)) = Inr sp \<and>
     port_item X (DST_PORT X) (dict_get f (DST_PORT X)) = Inr dp \<and>
     items = src_network_item X (dict_get f (SRC_NETWORK X))
       @ network_item (DST_NETWORK X) (dict_get f (DST_NETWORK X))
       @ sp @ dp @ network_item (PROTOCOL X) (dict_get f (PROTOCOL X))"
  unfolding direct_key_items_def by (simp split: sum.splits)

lemma direct_key_items_eq:
  assumes "direct_key_items X f = Inr items" "i \<in> set items"
  shows "CHR ''='' \<in> set i"
proof -
  from direct_key_items_Inr [OF assms(1)] obtain sp dp where
    sp: "port_item X (SRC_PORT X) (dict_get f (SRC_PORT X)) = Inr sp" and
    dp: "port_item X (DST_PORT X) (dict_get f (DST_PORT X)) = Inr dp" and
    items: "items = src_network_item X (dict_get f (SRC_NETWORK X))
       @ network_item (DST_NETWORK X) (dict_get f (DST_NETWORK X))
       @ sp @ dp @ network_item (PROTOCOL X) (dict_get f (PROTOCOL X))"
    by blast
  from assms(2) show ?thesis
    unfolding items
    using network_item_eq src_network_item_eq port_item_eq [OF sp] port_item_eq [OF dp]
    by auto
qed

lemma filter_key_empty_or_eq:
  assumes "get_filter_key X M f = Inr k"
  shows "k = [] \<or> CHR ''='' \<in> set k"
proof (cases "dict_in (HANDLE X) f")
  case True
  with assms obtain h items where "mangle_loop X h M None = Inr items" "k = join '', '' items"
    by (auto simp: get_filter_key_def split: option.splits sum.splits)
  moreover from this obtain m where "items = mangle_key_items X m"
    using mangle_loop_Inr by blast
  ultimately show ?thesis
    using join_has_char [of "mangle_key_items X m" "CHR ''=''" "'', ''"]
    by (simp add: mangle_key_items_nonempty mangle_key_items_eq)
next
  case False
  with assms obtain items where it: "direct_key_items X f = Inr items" "k = join '', '' items"
    by (auto simp: get_filter_key_def split: sum.splits)
  show ?thesis
  proof (cases "items = []")
    case True
    with it show ?thesis by simp
  next
    case False
    with it show ?thesis
      using join_has_char [of items "CHR ''=''" "'', ''"] direct_key_items_eq [OF it(1)]
      by simp
  qed
qed

lemma filter_key_null_iff:
  assumes "get_filter_key X M f = Inr k"
  shows "is_null_string (PStr k) \<longleftrightarrow> k = []"
proof
  assume "is_null_string (PStr k)"
  then have "\<forall>c\<in>set k. is_space c" by (simp add: is_null_string_def rstrip_Nil_iff)
  with filter_key_empty_or_eq [OF assms] eq_not_space show "k = []" by auto
next
  assume "k = []"
  then show "is_null_string (PStr k)" by (simp add: is_null_string_def rstrip_def)
qed

text \<open>What one filter does to the mapping.\<close>

lemma filter_loop_append:
  "filter_loop X M cs qs (pre @ post) srm =
     (case filter_loop X M cs qs pre srm of
        Inl e \<Rightarrow> Inl e
      | Inr srm' \<Rightarrow> filter_loop X M cs qs post srm')"
  by (induction pre arbitrary: srm) (auto split: sum.splits)

lemma filter_loop_skip:
  "get_filter_key X M f = Inr [] \<Longrightarrow>
   filter_loop X M cs qs (pre @ f # post) srm = filter_loop X M cs qs (pre @ post) srm"
  by (simp add: filter_loop_append is_null_string_def rstrip_def split: sum.splits)

lemma filter_loop_keeps:
  "filter_loop X M cs qs post srm = Inr m \<Longrightarrow>
   \<forall>g\<in>set post. get_filter_key X M g \<noteq> Inr k \<or> shaping_rule_of X cs qs g = Inr [] \<Longrightarrow>
   map_of m k = map_of srm k"
proof (induction post arbitrary: srm)
  case Nil
  then show ?case by simp
next
  case (Cons g post)
  from Cons.prems(2) have rest:
    "\<forall>g\<in>set post. get_filter_key X M g \<noteq> Inr k \<or> shaping_rule_of X cs qs g = Inr []"
    and g: "get_filter_key X M g \<noteq> Inr k \<or> shaping_rule_of X cs qs g = Inr []"
    by auto
  from Cons.prems(1) g show ?case
    using Cons.IH [OF _ rest]
    by (auto simp: update_conv' split: sum.splits if_splits)
qed

lemma filter_loop_distinct:
  "filter_loop X M cs qs fs srm = Inr m \<Longrightarrow> distinct (map fst srm) \<Longrightarrow> distinct (map fst m)"
proof (induction fs arbitrary: srm)
  case Nil
  then show ?case by simp
next
  case (Cons f fs)
  then show ?case
    by (auto simp: distinct_update split: sum.splits if_splits)
qed

lemma filter_loop_entries:
  "filter_loop X M cs qs fs srm = Inr m \<Longrightarrow> (k, acc) \<in> set m \<Longrightarrow>
   (k, acc) \<in> set srm \<or>
   (\<exists>f\<in>set fs. get_filter_key X M f = Inr k \<and> k \<noteq> [] \<and>
      shaping_rule_of X cs qs f = Inr acc \<and> acc \<noteq> [])"
proof (induction fs arbitrary: srm)
  case Nil
  then show ?case by simp
next
  case (Cons f fs)
  show ?case
  proof (cases "get_filter_key X M f")
    case (Inl e)
    with Cons.prems show ?thesis by simp
  next
    case (Inr kf)
    note key = this
    show ?thesis
    proof (cases "is_null_string (PStr kf)")
      case True
      with Cons key show ?thesis by auto
    next
      case False
      then have kf: "kf \<noteq> []" using filter_key_null_iff [OF key] by simp
      from Cons.prems(1) key False obtain sr where sr: "shaping_rule_of X cs qs f = Inr sr"
        by (auto split: sum.splits)
      show ?thesis
      proof (cases "sr = []")
        case True
        with Cons key False sr show ?thesis by auto
      next
        case nonempty: False
        with Cons.prems(1) key False sr
        have "filter_loop X M cs qs fs (AList.update kf sr srm) = Inr m" by simp
        from Cons.IH [OF this Cons.prems(2)]
        show ?thesis
        proof
          assume "(k, acc) \<in> set (AList.update kf sr srm)"
          then have "(k, acc) \<in> set srm \<or> (k = kf \<and> acc = sr)"
            by (induction srm) (auto split: if_splits)
          with key kf sr nonempty show ?thesis by auto
        next
          assume "\<exists>f\<in>set fs. get_filter_key X M f = Inr k \<and> k \<noteq> [] \<and>
            shaping_rule_of X cs qs f = Inr acc \<and> acc \<noteq> []"
          then show ?thesis by auto
        qed
      qed
    qed
  qed
qed

lemma filter_loop_records:
  assumes "filter_loop X M cs qs (pre @ f # post) srm = Inr m"
    and "get_filter_key X M f = Inr k" "k \<noteq> []"
    and "\<forall>g\<in>set post. get_filter_key X M g \<noteq> Inr k \<or> shaping_rule_of X cs qs g = Inr []"
  shows "\<exists>acc. shaping_rule_of X cs qs f = Inr acc \<and> (acc \<noteq> [] \<longrightarrow> map_of m k = Some acc)"
proof -
  from assms(1) obtain s1 where s1: "filter_loop X M cs qs pre srm = Inr s1"
    and rest: "filter_loop X M cs qs (f # post) s1 = Inr m"
    by (auto simp: filter_loop_append split: sum.splits)
  have nn: "\<not> is_null_string (PStr k)" using filter_key_null_iff [OF assms(2)] assms(3) by simp
  from rest assms(2) nn obtain acc where acc: "shaping_rule_of X cs qs f = Inr acc"
    by (auto split: sum.splits)
  have "map_of m k = Some acc" if "acc \<noteq> []"
  proof -
    from rest assms(2) nn acc that
    have "filter_loop X M cs qs post (AList.update k acc s1) = Inr m" by simp
    from filter_loop_keeps [OF this assms(4)] show ?thesis by (simp add: update_conv')
  qed
  with acc show ?thesis by auto
qed

section \<open>The output mapping\<close>

lemma dict_in_keys: "dict_in k d \<longleftrightarrow> k \<in> fst ` set d"
  by (simp add: dict_in_def map_of_eq_None_iff)

lemma keys_qdisc_loop:
  "x \<in> fst ` set (qdisc_loop X f qs sr) \<Longrightarrow>
   x \<in> fst ` set sr \<or> (\<exists>q\<in>set qs. x \<in> fst ` set q \<and> x \<noteq> PARENT X \<and> x \<noteq> HANDLE X)"
proof (induction qs arbitrary: sr)
  case Nil
  then show ?case by simp
next
  case (Cons q qs)
  have strip: "fst ` set (strip_qdisc_param X q) = fst ` set q - {PARENT X, HANDLE X}"
    by (auto simp: strip_qdisc_param_def AList.delete_eq)
  show ?case
  proof (cases "id_matches X f (dict_get q (PARENT X))")
    case False
    with Cons show ?thesis by auto
  next
    case True
    with Cons.prems have "x \<in> fst ` set (qdisc_loop X f qs (dict_update sr (strip_qdisc_param X q)))"
      by simp
    from Cons.IH [OF this] show ?thesis
      by (auto simp: keys_dict_update strip)
  qed
qed

lemma keys_class_loop:
  "class_loop X f cs sr = Inr r \<Longrightarrow> x \<in> fst ` set r \<Longrightarrow>
   x \<in> fst ` set sr \<or> (\<exists>c\<in>set cs. x \<in> fst ` set c \<and> x \<noteq> CLASS_ID X)"
proof (induction cs arbitrary: sr)
  case Nil
  then show ?case by simp
next
  case (Cons c cs)
  have del: "fst ` set (AList.delete (CLASS_ID X) c) = fst ` set c - {CLASS_ID X}"
    by (auto simp: AList.delete_eq)
  show ?case
  proof (cases "id_matches X f (dict_get c (CLASS_ID X))")
    case False
    with Cons show ?thesis by auto
  next
    case True
    with Cons.prems(1) have "class_loop X f cs (dict_update sr (AList.delete (CLASS_ID X) c)) = Inr r"
      by (simp split: if_splits)
    from Cons.IH [OF this Cons.prems(2)] show ?thesis
      by (auto simp: keys_dict_update del)
  qed
qed

lemma keys_shaping_rule_of:
  assumes "shaping_rule_of X cs qs f = Inr acc" "x \<in> fst ` set acc"
  shows "(\<exists>q\<in>set qs. x \<in> fst ` set q \<and> x \<noteq> PARENT X \<and> x \<noteq> HANDLE X) \<or>
         (\<exists>c\<in>set cs. x \<in> fst ` set c \<and> x \<noteq> CLASS_ID X)"
  using keys_class_loop [OF assms(1) [unfolded shaping_rule_of_def] assms(2)]
    keys_qdisc_loop [of x X f qs "[]"]
  by auto

text \<open>
  Where every qdisc record has a parent and every class record a class id, the merged
  parameters of a filter whose key is not empty are the union of the parameters of
  every qdisc record whose parent is the filter's flow or class identifier, without
  parent and handle, updated by the parameters of every class record whose class id is
  that identifier, without the class id; when they are not empty they are what the
  output holds under the key (no later record resolving to that key), and where a class
  record gives a value for a name, that value is the one in the result.
\<close>

lemma merged_parameters_of_identified_records:
  assumes "filter_loop X M cs qs (pre @ f # post) [] = Inr m"
    and "get_filter_key X M f = Inr k" and "k \<noteq> []"
    and "\<forall>g\<in>set post. get_filter_key X M g \<noteq> Inr k"
    and "\<forall>q\<in>set qs. distinct (map fst q) \<and> dict_get q (PARENT X) \<noteq> PNone"
    and "\<forall>c\<in>set cs. distinct (map fst c) \<and> dict_get c (CLASS_ID X) \<noteq> PNone"
  shows "\<exists>acc. shaping_rule_of X cs qs f = Inr acc \<and>
           map_of acc = spec_merged X cs qs f \<and>
           (acc \<noteq> [] \<longrightarrow> map_of m k = Some acc) \<and>
           (\<forall>x v. spec_class_part X cs f x = Some v \<longrightarrow> map_of acc x = Some v)"
proof -
  from assms(4) have later:
    "\<forall>g\<in>set post. get_filter_key X M g \<noteq> Inr k \<or> shaping_rule_of X cs qs g = Inr []"
    by simp
  from filter_loop_records [OF assms(1) assms(2) assms(3) later] obtain acc
    where acc: "shaping_rule_of X cs qs f = Inr acc"
      and rec: "acc \<noteq> [] \<longrightarrow> map_of m k = Some acc"
    by blast
  have spec: "map_of acc = spec_merged X cs qs f"
    by (rule shaping_rule_of_spec [OF assms(5) assms(6) acc])
  have "map_of acc x = Some v" if "spec_class_part X cs f x = Some v" for x v
    using that by (simp add: spec spec_merged_def)
  with acc rec spec show ?thesis by blast
qed


lemma no_entry: "k \<notin> fst ` set m \<Longrightarrow> filter (\<lambda>e. fst e = k) m = []"
  by (induction m) auto

lemma single_entry:
  "distinct (map fst m) \<Longrightarrow> map_of m k = Some a \<Longrightarrow> filter (\<lambda>e. fst e = k) m = [(k, a)]"
proof (induction m)
  case Nil
  then show ?case by simp
next
  case (Cons e m)
  show ?case
  proof (cases "fst e = k")
    case True
    with Cons.prems have "e = (k, a)" by (cases e) simp
    moreover from True Cons.prems(1) have "k \<notin> fst ` set m" by auto
    ultimately show ?thesis by (simp add: no_entry)
  next
    case False
    with Cons show ?thesis by (cases e) auto
  qed
qed

text \<open>
  C5. Two filter records of one list that resolve to the same key, which is not empty,
  both with merged parameters that are not empty: the output has exactly one entry under
  that key, and it holds the merged parameters of the later record (later records that
  store something under the key aside).
\<close>

theorem duplicate_key_later_wins:
  assumes "filter_loop X M cs qs (xs @ f1 # ys @ f2 # zs) [] = Inr m"
    and "get_filter_key X M f1 = Inr k" and "get_filter_key X M f2 = Inr k" and "k \<noteq> []"
    and "shaping_rule_of X cs qs f1 = Inr a1" and "a1 \<noteq> []"
    and "shaping_rule_of X cs qs f2 = Inr a2" and "a2 \<noteq> []"
    and "\<forall>g\<in>set zs. get_filter_key X M g \<noteq> Inr k \<or> shaping_rule_of X cs qs g = Inr []"
  shows "filter (\<lambda>e. fst e = k) m = [(k, a2)]"
proof -
  have "filter_loop X M cs qs ((xs @ f1 # ys) @ f2 # zs) [] = Inr m"
    using assms(1) by simp
  from filter_loop_records [OF this assms(3) assms(4) assms(9)] assms(7) assms(8)
  have look: "map_of m k = Some a2" by simp
  have dist: "distinct (map fst m)"
    using filter_loop_distinct [OF assms(1)] by simp
  from single_entry [OF dist look] show ?thesis .
qed

text \<open>
  C8, as amended. The code takes parent and handle out of what a qdisc record gives, and
  the class id out of what a class record gives, and nothing else. So when no qdisc
  record has a class id and no class record has a parent or a handle, no merged
  parameters in the output have any of the three keys.
\<close>

theorem join_keys_stripped:
  assumes "filter_loop X M cs qs fs [] = Inr m" and "(k, acc) \<in> set m"
    and "\<forall>q\<in>set qs. \<not> dict_in (CLASS_ID X) q"
    and "\<forall>c\<in>set cs. \<not> dict_in (PARENT X) c \<and> \<not> dict_in (HANDLE X) c"
  shows "\<not> dict_in (PARENT X) acc \<and> \<not> dict_in (HANDLE X) acc \<and> \<not> dict_in (CLASS_ID X) acc"
proof -
  from filter_loop_entries [OF assms(1) assms(2)] obtain f
    where acc: "shaping_rule_of X cs qs f = Inr acc" by auto
  show ?thesis
    using keys_shaping_rule_of [OF acc] assms(3) assms(4)
    unfolding dict_in_keys by blast
qed

lemma merged_parameters_example:
  "filter_loop example_env [] example_classes example_qdiscs
     [example_filter_a, [(''flowid'', PStr ''1:20''), (''dst-network'', PStr ''198.51.100.0/24'')]] []
     = Inr [(''dst-network=192.0.2.0/24, protocol=ip'',
             [(''delay'', PStr ''100ms''), (''limit'', PStr ''20''), (''rate'', PStr ''1Mbit'')]),
            (''dst-network=198.51.100.0/24'', [(''rate'', PStr ''2Mbit'')])] \<and>
   get_filter_key example_env [] example_filter_a = Inr ''dst-network=192.0.2.0/24, protocol=ip'' \<and>
   get_filter_key example_env [] [(''flowid'', PStr ''1:20''), (''dst-network'', PStr ''198.51.100.0/24'')]
     = Inr ''dst-network=198.51.100.0/24'' \<and>
   distinct (map fst (hd example_qdiscs)) \<and>
   distinct (map fst (example_classes ! 0)) \<and> distinct (map fst (example_classes ! 1)) \<and>
   shaping_rule_of example_env example_classes example_qdiscs example_filter_a
     = Inr [(''delay'', PStr ''100ms''), (''limit'', PStr ''20''), (''rate'', PStr ''1Mbit'')] \<and>
   map_of [(''delay'', PStr ''100ms''), (''limit'', PStr ''20''), (''rate'', PStr ''1Mbit'')]
     = spec_merged example_env example_classes example_qdiscs example_filter_a \<and>
   map_of [(''dst-network=192.0.2.0/24, protocol=ip'',
             [(''delay'', PStr ''100ms''), (''limit'', PStr ''20''), (''rate'', PStr ''1Mbit'')]),
           (''dst-network=198.51.100.0/24'', [(''rate'', PStr ''2Mbit'')])]
       ''dst-network=192.0.2.0/24, protocol=ip''
     = Some [(''delay'', PStr ''100ms''), (''limit'', PStr ''20''), (''rate'', PStr ''1Mbit'')]"
proof -
  let ?k = "''dst-network=192.0.2.0/24, protocol=ip''"
  let ?acc = "[(''delay'', PStr ''100ms''), (''limit'', PStr ''20''), (''rate'', PStr ''1Mbit'')]"
  let ?g = "[(''flowid'', PStr ''1:20''), (''dst-network'', PStr ''198.51.100.0/24'')]"
  let ?m = "[(?k, ?acc), (''dst-network=198.51.100.0/24'', [(''rate'', PStr ''2Mbit'')])]"
  have key: "get_filter_key example_env [] example_filter_a = Inr ?k"
    by (simp add: key_eval example_filter_a_def)
  have keyg: "get_filter_key example_env [] ?g = Inr ''dst-network=198.51.100.0/24''"
    by (simp add: key_eval)
  have sr: "shaping_rule_of example_env example_classes example_qdiscs example_filter_a = Inr ?acc"
    by (simp add: join_eval dict_get_def dict_in_def example_env_def)
  have srg: "shaping_rule_of example_env example_classes example_qdiscs ?g
      = Inr [(''rate'', PStr ''2Mbit'')]"
    by (simp add: join_eval dict_get_def dict_in_def example_env_def)
  have loop: "filter_loop example_env [] example_classes example_qdiscs
      ([] @ example_filter_a # [?g]) [] = Inr ?m"
    by (simp add: key keyg sr srg is_null_string_def rstrip_def is_space_def)
  have ne: "?k \<noteq> []" by simp
  have later: "\<forall>g\<in>set [?g]. get_filter_key example_env [] g \<noteq> Inr ?k"
    by (simp add: keyg)
  have dq: "\<forall>q\<in>set example_qdiscs.
      distinct (map fst q) \<and> dict_get q (PARENT example_env) \<noteq> PNone"
    by (simp add: example_qdiscs_def dict_get_def example_env_def)
  have dc: "\<forall>c\<in>set example_classes.
      distinct (map fst c) \<and> dict_get c (CLASS_ID example_env) \<noteq> PNone"
    by (simp add: example_classes_def dict_get_def example_env_def)
  from merged_parameters_of_identified_records [OF loop key ne later dq dc] sr
  have "map_of ?acc = spec_merged example_env example_classes example_qdiscs example_filter_a"
    and "map_of ?m ?k = Some ?acc"
    by simp_all
  with key keyg sr loop show ?thesis
    by (simp add: example_qdiscs_def example_classes_def)
qed

theorem duplicate_key_later_wins_witness:
  "filter_loop example_env [] example_classes example_qdiscs [example_filter_a, example_filter_b] []
     = Inr [(''dst-network=192.0.2.0/24, protocol=ip'', [(''rate'', PStr ''2Mbit'')])] \<and>
   get_filter_key example_env [] example_filter_a = Inr ''dst-network=192.0.2.0/24, protocol=ip'' \<and>
   get_filter_key example_env [] example_filter_b = Inr ''dst-network=192.0.2.0/24, protocol=ip'' \<and>
   shaping_rule_of example_env example_classes example_qdiscs example_filter_a
     = Inr [(''delay'', PStr ''100ms''), (''limit'', PStr ''20''), (''rate'', PStr ''1Mbit'')] \<and>
   shaping_rule_of example_env example_classes example_qdiscs example_filter_b
     = Inr [(''rate'', PStr ''2Mbit'')] \<and>
   filter (\<lambda>e. fst e = ''dst-network=192.0.2.0/24, protocol=ip'')
     [(''dst-network=192.0.2.0/24, protocol=ip'', [(''rate'', PStr ''2Mbit'')])]
     = [(''dst-network=192.0.2.0/24, protocol=ip'', [(''rate'', PStr ''2Mbit'')])]"
proof -
  let ?k = "''dst-network=192.0.2.0/24, protocol=ip''"
  let ?a = "[(''delay'', PStr ''100ms''), (''limit'', PStr ''20''), (''rate'', PStr ''1Mbit'')]"
  let ?b = "[(''rate'', PStr ''2Mbit'')]"
  have ka: "get_filter_key example_env [] example_filter_a = Inr ?k"
    by (simp add: key_eval example_filter_a_def)
  have kb: "get_filter_key example_env [] example_filter_b = Inr ?k"
    by (simp add: key_eval example_filter_b_def)
  have sa: "shaping_rule_of example_env example_classes example_qdiscs example_filter_a = Inr ?a"
    by (simp add: join_eval dict_get_def dict_in_def example_env_def)
  have sb: "shaping_rule_of example_env example_classes example_qdiscs example_filter_b = Inr ?b"
    by (simp add: join_eval dict_get_def dict_in_def example_env_def)
  have loop: "filter_loop example_env [] example_classes example_qdiscs
      ([] @ example_filter_a # [] @ example_filter_b # []) [] = Inr [(?k, ?b)]"
    by (simp add: ka kb sa sb is_null_string_def rstrip_def is_space_def)
  from duplicate_key_later_wins [OF loop ka kb _ sa _ sb]
  have "filter (\<lambda>e. fst e = ?k) [(?k, ?b)] = [(?k, ?b)]" by simp
  with ka kb sa sb loop show ?thesis by simp
qed

text \<open>
  C8, as the claim states it, fails: a class record that has a parent, as the listing of
  the classes of a device prints one, passes it on to the merged parameters.
\<close>

theorem join_key_kept_counterexample:
  "filter_loop example_env []
     [[(''classid'', PStr ''1:10''), (''parent'', PStr ''1:''), (''rate'', PStr ''1Mbit'')]]
     [] [example_filter_a] []
   = Inr [(''dst-network=192.0.2.0/24, protocol=ip'',
           [(''parent'', PStr ''1:''), (''rate'', PStr ''1Mbit'')])] \<and>
   dict_in (PARENT example_env) [(''parent'', PStr ''1:''), (''rate'', PStr ''1Mbit'')]"
  by (simp add: key_eval join_eval)

theorem join_keys_stripped_witness:
  "filter_loop example_env [] example_classes example_qdiscs [example_filter_a] []
     = Inr [(''dst-network=192.0.2.0/24, protocol=ip'',
             [(''delay'', PStr ''100ms''), (''limit'', PStr ''20''), (''rate'', PStr ''1Mbit'')])] \<and>
   \<not> dict_in (CLASS_ID example_env) (hd example_qdiscs) \<and>
   \<not> dict_in (PARENT example_env) (example_classes ! 0) \<and>
   \<not> dict_in (HANDLE example_env) (example_classes ! 0) \<and>
   \<not> dict_in (PARENT example_env) (example_classes ! 1) \<and>
   \<not> dict_in (HANDLE example_env) (example_classes ! 1) \<and>
   \<not> dict_in (PARENT example_env) [(''delay'', PStr ''100ms''), (''limit'', PStr ''20''), (''rate'', PStr ''1Mbit'')] \<and>
   \<not> dict_in (HANDLE example_env) [(''delay'', PStr ''100ms''), (''limit'', PStr ''20''), (''rate'', PStr ''1Mbit'')] \<and>
   \<not> dict_in (CLASS_ID example_env) [(''delay'', PStr ''100ms''), (''limit'', PStr ''20''), (''rate'', PStr ''1Mbit'')]"
proof -
  let ?k = "''dst-network=192.0.2.0/24, protocol=ip''"
  let ?acc = "[(''delay'', PStr ''100ms''), (''limit'', PStr ''20''), (''rate'', PStr ''1Mbit'')]"
  have loop: "filter_loop example_env [] example_classes example_qdiscs [example_filter_a] []
      = Inr [(?k, ?acc)]"
    by (simp add: key_eval join_eval)
  have q: "\<forall>q\<in>set example_qdiscs. \<not> dict_in (CLASS_ID example_env) q"
    by (simp add: example_qdiscs_def example_env_def dict_in_def)
  have c: "\<forall>c\<in>set example_classes.
      \<not> dict_in (PARENT example_env) c \<and> \<not> dict_in (HANDLE example_env) c"
    by (simp add: example_classes_def example_env_def dict_in_def)
  from join_keys_stripped [OF loop _ q c, of ?k ?acc] loop q c
  show ?thesis by (simp add: example_qdiscs_def example_classes_def)
qed

section \<open>Records without discriminating fields\<close>

lemma filter_loop_no_empty_key:
  assumes "filter_loop X M cs qs fs [] = Inr m"
  shows "[] \<notin> fst ` set m"
proof
  assume "[] \<in> fst ` set m"
  then obtain acc where "([], acc) \<in> set m" by auto
  from filter_loop_entries [OF assms this] show False by auto
qed

lemma port_item_None: "port_item X name PNone = Inr []"
  by (simp add: port_item_def Integer_is_type_def Integer_convert_def)

lemma network_item_None: "network_item name PNone = []"
  by (simp add: network_item_def)

text \<open>
  C6, as amended. A filter record without a handle, whose source network is absent or
  the any-address network of the IP version, and whose destination network, ports and
  protocol are absent: its key is the empty string, the loop passes it over, and the
  output has no entry under the empty string. Only the source network is tested for the
  any-address network; a destination network or a protocol is part of the key whenever it
  is a string that is not null.
\<close>

theorem empty_key_discarded:
  assumes "\<not> dict_in (HANDLE X) f"
    and "dict_get f (SRC_NETWORK X) = PNone \<or>
         (\<exists>s. dict_get f (SRC_NETWORK X) = PStr s \<and> is_anywhere_network X s (ip_version X))"
    and "dict_get f (DST_NETWORK X) = PNone"
    and "dict_get f (SRC_PORT X) = PNone"
    and "dict_get f (DST_PORT X) = PNone"
    and "dict_get f (PROTOCOL X) = PNone"
  shows "get_filter_key X M f = Inr [] \<and>
         filter_loop X M cs qs (pre @ f # post) srm = filter_loop X M cs qs (pre @ post) srm \<and>
         (\<forall>m. filter_loop X M cs qs (pre @ f # post) [] = Inr m \<longrightarrow> [] \<notin> fst ` set m)"
proof -
  from assms(2) have "src_network_item X (dict_get f (SRC_NETWORK X)) = []"
    by (auto simp: src_network_item_def)
  then have "direct_key_items X f = Inr []"
    using assms(3-6) by (simp add: direct_key_items_def port_item_None network_item_None)
  with assms(1) have key: "get_filter_key X M f = Inr []"
    by (simp add: get_filter_key_def)
  from key filter_loop_skip [OF key] filter_loop_no_empty_key show ?thesis by blast
qed

theorem empty_key_discarded_witness:
  "\<not> dict_in (HANDLE example_env) [(''flowid'', PStr ''1:10''), (''src-network'', PStr ''0.0.0.0/0'')] \<and>
   dict_get [(''flowid'', PStr ''1:10''), (''src-network'', PStr ''0.0.0.0/0'')] (SRC_NETWORK example_env)
     = PStr ''0.0.0.0/0'' \<and>
   is_anywhere_network example_env ''0.0.0.0/0'' (ip_version example_env) \<and>
   get_filter_key example_env [] [(''flowid'', PStr ''1:10''), (''src-network'', PStr ''0.0.0.0/0'')] = Inr [] \<and>
   filter_loop example_env [] example_classes example_qdiscs
     [[(''flowid'', PStr ''1:10''), (''src-network'', PStr ''0.0.0.0/0'')], example_filter_b] []
   = Inr [(''dst-network=192.0.2.0/24, protocol=ip'', [(''rate'', PStr ''2Mbit'')])] \<and>
   filter_loop example_env [] example_classes example_qdiscs [example_filter_b] []
   = Inr [(''dst-network=192.0.2.0/24, protocol=ip'', [(''rate'', PStr ''2Mbit'')])]"
proof -
  let ?f = "[(''flowid'', PStr ''1:10''), (''src-network'', PStr ''0.0.0.0/0'')]"
  have h: "\<not> dict_in (HANDLE example_env) ?f"
    by (simp add: dict_in_def example_env_def)
  have src: "dict_get ?f (SRC_NETWORK example_env) = PNone \<or>
      (\<exists>s. dict_get ?f (SRC_NETWORK example_env) = PStr s \<and>
         is_anywhere_network example_env s (ip_version example_env))"
    by (simp add: dict_get_def example_env_def)
  have rest: "dict_get ?f (DST_NETWORK example_env) = PNone"
    "dict_get ?f (SRC_PORT example_env) = PNone"
    "dict_get ?f (DST_PORT example_env) = PNone"
    "dict_get ?f (PROTOCOL example_env) = PNone"
    by (simp_all add: dict_get_def example_env_def)
  have b: "filter_loop example_env [] example_classes example_qdiscs [example_filter_b] []
      = Inr [(''dst-network=192.0.2.0/24, protocol=ip'', [(''rate'', PStr ''2Mbit'')])]"
    by (simp add: key_eval join_eval)
  note inst = empty_key_discarded [OF h src rest, of "[]" example_classes example_qdiscs "[]"
      "[example_filter_b]" "[]"]
  from inst have k: "get_filter_key example_env [] ?f = Inr []" by blast
  from inst have "filter_loop example_env [] example_classes example_qdiscs
      [?f, example_filter_b] []
    = filter_loop example_env [] example_classes example_qdiscs [example_filter_b] []"
    by (simp del: filter_loop.simps)
  with b have fb: "filter_loop example_env [] example_classes example_qdiscs
      [?f, example_filter_b] []
    = Inr [(''dst-network=192.0.2.0/24, protocol=ip'', [(''rate'', PStr ''2Mbit'')])]"
    by simp
  have s: "dict_get ?f (SRC_NETWORK example_env) = PStr ''0.0.0.0/0''"
    by (simp add: dict_get_def example_env_def)
  have a: "is_anywhere_network example_env ''0.0.0.0/0'' (ip_version example_env)"
    by (simp add: example_env_def)
  from h s a k fb b show ?thesis by blast
qed

text \<open>
  C6, as the claim states it, fails for a field other than the source network: a
  destination network that is the any-address network stays in the key, and the record
  gets its entry in the output.
\<close>

theorem any_destination_counterexample:
  "\<not> dict_in (HANDLE example_env) [(''flowid'', PStr ''1:20''), (''dst-network'', PStr ''0.0.0.0/0'')] \<and>
   is_anywhere_network example_env ''0.0.0.0/0'' (ip_version example_env) \<and>
   get_filter_key example_env [] [(''flowid'', PStr ''1:20''), (''dst-network'', PStr ''0.0.0.0/0'')]
     = Inr ''dst-network=0.0.0.0/0'' \<and>
   filter_loop example_env [] example_classes example_qdiscs
     [[(''flowid'', PStr ''1:20''), (''dst-network'', PStr ''0.0.0.0/0'')]] []
     = Inr [(''dst-network=0.0.0.0/0'', [(''rate'', PStr ''2Mbit'')])]"
  by (simp add: key_eval join_eval)

section \<open>The two directions and the store\<close>

lemma get_shaping_rule_null:
  "is_null_string ifb \<Longrightarrow> get_shaping_rule X M con ifb = (Inr [], con)"
  by (simp add: get_shaping_rule_def)

lemma get_tc_parameter_fst:
  "fst (get_tc_parameter X M con device ifb) =
     (case fst (get_shaping_rule X M con (PStr device)) of
        Inl e \<Rightarrow> Inl e
      | Inr out \<Rightarrow>
          (case fst (get_shaping_rule X M (snd (get_shaping_rule X M con (PStr device))) ifb) of
             Inl e \<Rightarrow> Inl e
           | Inr inc \<Rightarrow> Inr [(device, [(OUTGOING, out), (INCOMING, inc)])]))"
  unfolding get_tc_parameter_def
  by (cases "get_shaping_rule X M con (PStr device)";
      cases "get_shaping_rule X M (snd (get_shaping_rule X M con (PStr device))) ifb")
     (auto split: sum.splits)

text \<open>
  C7. Without an IFB device the incoming direction is the empty mapping: the call for it
  returns at once and raises nothing, and the result of \<^verbatim>\<open>get_tc_parameter\<close> is an
  error only when the outgoing direction raised one; otherwise it has the incoming
  direction as a key of the device's entry, with the empty mapping as its value.
\<close>

theorem no_ifb_incoming_empty:
  assumes "is_null_string ifb"
  shows "get_shaping_rule X M con ifb = (Inr [], con) \<and>
         fst (get_tc_parameter X M con device ifb) =
           (case fst (get_shaping_rule X M con (PStr device)) of
              Inl e \<Rightarrow> Inl e
            | Inr out \<Rightarrow> Inr [(device, [(OUTGOING, out), (INCOMING, [])])])"
  using assms
  by (simp add: get_tc_parameter_fst get_shaping_rule_null split: sum.splits)

theorem no_ifb_incoming_empty_witness:
  "is_null_string PNone \<and>
   get_shaping_rule example_env [] [] PNone = (Inr [], []) \<and>
   fst (get_tc_parameter example_env [] [] ''eth0'' PNone) =
     Inr [(''eth0'',
           [(OUTGOING, [(''dst-network=192.0.2.0/24, protocol=ip'', [(''rate'', PStr ''2Mbit'')])]),
            (INCOMING, [])])]"
proof -
  have n: "is_null_string PNone" by (simp add: is_null_string_def)
  have fl: "filter_loop example_env [] example_classes example_qdiscs
      [example_filter_a, example_filter_b] []
    = Inr [(''dst-network=192.0.2.0/24, protocol=ip'', [(''rate'', PStr ''2Mbit'')])]"
    by (simp add: key_eval join_eval)
  have out: "fst (get_shaping_rule example_env [] [] (PStr ''eth0''))
    = Inr [(''dst-network=192.0.2.0/24, protocol=ip'', [(''rate'', PStr ''2Mbit'')])]"
    unfolding get_shaping_rule_def parse_tc_def
    by (simp add: is_null_string_def rstrip_def is_space_def example_env_def
        fl [unfolded example_env_def] del: filter_loop.simps)
  from no_ifb_incoming_empty [OF n, of example_env "[]" "[]" "''eth0''"] n out
  show ?thesis by simp
qed

text \<open>
  The store is created once and shared by the two directions. A query appends its
  records and nothing takes records out, so the store still holds the records of the
  outgoing query while the incoming one runs. What the record parsers, which receive
  the store and are not among the sources at hand, read back from it is not decided by
  the code at hand.
\<close>

lemma store_keeps_records:
  "\<exists>new. snd (get_shaping_rule X M con device) = con @ new"
  by (auto simp: get_shaping_rule_def parse_tc_def split: pyval.splits sum.splits)

section \<open>Determinism and order of the filter key\<close>

lemma filter_key_attributes:
  assumes "\<forall>n\<in>set [HANDLE X, SRC_NETWORK X, DST_NETWORK X, SRC_PORT X, DST_PORT X, PROTOCOL X].
             map_of f n = map_of g n"
  shows "get_filter_key X M f = get_filter_key X M g"
proof -
  from assms have
    "dict_in (HANDLE X) f = dict_in (HANDLE X) g"
    "dict_get f (HANDLE X) = dict_get g (HANDLE X)"
    "dict_get f (SRC_NETWORK X) = dict_get g (SRC_NETWORK X)"
    "dict_get f (DST_NETWORK X) = dict_get g (DST_NETWORK X)"
    "dict_get f (SRC_PORT X) = dict_get g (SRC_PORT X)"
    "dict_get f (DST_PORT X) = dict_get g (DST_PORT X)"
    "dict_get f (PROTOCOL X) = dict_get g (PROTOCOL X)"
    by (simp_all add: dict_get_def dict_in_def)
  then show ?thesis
    unfolding get_filter_key_def direct_key_items_def by (simp only:)
qed

lemma network_item_field: "network_item name v = field name (str_attr v)"
  by (cases v) (simp_all add: network_item_def field_def str_attr_def is_not_null_string_def)

lemma src_network_item_field: "src_network_item X v = field (SRC_NETWORK X) (src_attr X v)"
  by (cases v)
     (simp_all add: src_network_item_def field_def src_attr_def str_attr_def is_not_null_string_def)

lemma port_item_field: "port_item X name v = Inr its \<Longrightarrow> its = field name (port_attr v)"
  by (cases v)
     (auto simp: port_item_def field_def port_attr_def Integer_is_type_def Integer_convert_def
        split: if_splits)

lemma mangle_key_items_field:
  "mangle_key_items X m =
     field (DST_NETWORK X) (Some (destination m)) @ field (SRC_NETWORK X) (str_attr (source m))
     @ field (PROTOCOL X) (Some (protocol m))"
  by (cases "source m")
     (simp_all add: mangle_key_items_def field_def str_attr_def is_not_null_string_def)

lemma direct_key_ordered:
  assumes "\<not> dict_in (HANDLE X) f" and "get_filter_key X M f = Inr k"
  shows "k = ordered_key X (src_attr X (dict_get f (SRC_NETWORK X)))
               (str_attr (dict_get f (DST_NETWORK X)))
               (port_attr (dict_get f (SRC_PORT X))) (port_attr (dict_get f (DST_PORT X)))
               (str_attr (dict_get f (PROTOCOL X)))"
proof -
  from assms obtain items where it: "direct_key_items X f = Inr items" and k: "k = join '', '' items"
    by (auto simp: get_filter_key_def split: sum.splits)
  from direct_key_items_Inr [OF it] obtain sp dp where
    sp: "port_item X (SRC_PORT X) (dict_get f (SRC_PORT X)) = Inr sp" and
    dp: "port_item X (DST_PORT X) (dict_get f (DST_PORT X)) = Inr dp" and
    items: "items = src_network_item X (dict_get f (SRC_NETWORK X))
       @ network_item (DST_NETWORK X) (dict_get f (DST_NETWORK X))
       @ sp @ dp @ network_item (PROTOCOL X) (dict_get f (PROTOCOL X))"
    by blast
  show ?thesis
    unfolding k items ordered_key_def
    by (simp only: network_item_field src_network_item_field
        port_item_field [OF sp] port_item_field [OF dp])
qed

lemma handle_key_ordered:
  assumes "dict_in (HANDLE X) f" and "get_filter_key X M f = Inr k"
  shows "\<exists>m\<in>set M. Some (mark_id m) = Integer_convert X (dict_get f (HANDLE X)) \<and>
           k = join '', '' (field (DST_NETWORK X) (Some (destination m))
                 @ field (SRC_NETWORK X) (str_attr (source m))
                 @ field (PROTOCOL X) (Some (protocol m)))"
proof -
  from assms obtain h items where h: "Integer_convert X (dict_get f (HANDLE X)) = Some h"
    and l: "mangle_loop X h M None = Inr items" and k: "k = join '', '' items"
    by (auto simp: get_filter_key_def split: option.splits sum.splits)
  from mangle_loop_Inr [OF l] obtain m where "m \<in> set M" "mark_id m = h"
    "items = mangle_key_items X m" by blast
  with h k show ?thesis by (auto simp: mangle_key_items_field)
qed

text \<open>
  C3, as amended. The key is a function of the record's classification attributes and
  the mangle table: two records that agree on handle, networks, ports and protocol get
  the same result. Without a handle the fields of the key stand in the order source
  network, destination network, source port, destination port, protocol. With a handle
  the key is that of a mangle rule with the handle's mark: destination network, source
  network when it is not null, protocol.
\<close>

theorem filter_key_deterministic_ordered:
  "((\<forall>n\<in>set [HANDLE X, SRC_NETWORK X, DST_NETWORK X, SRC_PORT X, DST_PORT X, PROTOCOL X].
       map_of f n = map_of g n) \<longrightarrow>
      get_filter_key X M f = get_filter_key X M g) \<and>
   (\<not> dict_in (HANDLE X) f \<and> get_filter_key X M f = Inr k \<longrightarrow>
      k = ordered_key X (src_attr X (dict_get f (SRC_NETWORK X)))
            (str_attr (dict_get f (DST_NETWORK X)))
            (port_attr (dict_get f (SRC_PORT X))) (port_attr (dict_get f (DST_PORT X)))
            (str_attr (dict_get f (PROTOCOL X)))) \<and>
   (dict_in (HANDLE X) f \<and> get_filter_key X M f = Inr k \<longrightarrow>
      (\<exists>m\<in>set M. Some (mark_id m) = Integer_convert X (dict_get f (HANDLE X)) \<and>
         k = join '', '' (field (DST_NETWORK X) (Some (destination m))
               @ field (SRC_NETWORK X) (str_attr (source m))
               @ field (PROTOCOL X) (Some (protocol m)))))"
proof (intro conjI impI)
  assume "\<forall>n\<in>set [HANDLE X, SRC_NETWORK X, DST_NETWORK X, SRC_PORT X, DST_PORT X, PROTOCOL X].
       map_of f n = map_of g n"
  then show "get_filter_key X M f = get_filter_key X M g"
    by (rule filter_key_attributes)
next
  assume "\<not> dict_in (HANDLE X) f \<and> get_filter_key X M f = Inr k"
  then have "\<not> dict_in (HANDLE X) f" "get_filter_key X M f = Inr k" by simp_all
  then show "k = ordered_key X (src_attr X (dict_get f (SRC_NETWORK X)))
            (str_attr (dict_get f (DST_NETWORK X)))
            (port_attr (dict_get f (SRC_PORT X))) (port_attr (dict_get f (DST_PORT X)))
            (str_attr (dict_get f (PROTOCOL X)))"
    by (rule direct_key_ordered)
next
  assume "dict_in (HANDLE X) f \<and> get_filter_key X M f = Inr k"
  then have "dict_in (HANDLE X) f" "get_filter_key X M f = Inr k" by simp_all
  then show "\<exists>m\<in>set M. Some (mark_id m) = Integer_convert X (dict_get f (HANDLE X)) \<and>
         k = join '', '' (field (DST_NETWORK X) (Some (destination m))
               @ field (SRC_NETWORK X) (str_attr (source m))
               @ field (PROTOCOL X) (Some (protocol m)))"
    by (rule handle_key_ordered)
qed

theorem filter_key_deterministic_ordered_witness:
  "get_filter_key example_env []
     [(''src-network'', PStr ''10.0.0.0/8''), (''dst-port'', PInt 80), (''flowid'', PStr ''1:10'')]
   = get_filter_key example_env []
     [(''flowid'', PStr ''1:20''), (''dst-port'', PInt 80), (''src-network'', PStr ''10.0.0.0/8'')] \<and>
   get_filter_key example_env []
     [(''src-network'', PStr ''10.0.0.0/8''), (''dst-port'', PInt 80), (''flowid'', PStr ''1:10'')]
   = Inr ''src-network=10.0.0.0/8, dst-port=80'' \<and>
   ''src-network=10.0.0.0/8, dst-port=80''
   = ordered_key example_env (Some ''10.0.0.0/8'') None None (Some ''80'') None \<and>
   dict_in (HANDLE example_env) [(''handle'', PInt 100)] \<and>
   get_filter_key example_env
     [\<lparr>mark_id = 7, source = PNone, destination = ''198.51.100.0/24'', protocol = ''udp''\<rparr>,
      \<lparr>mark_id = 100, source = PStr ''10.0.0.0/8'', destination = ''192.0.2.0/24'', protocol = ''all''\<rparr>]
     [(''handle'', PInt 100)]
   = Inr ''dst-network=192.0.2.0/24, src-network=10.0.0.0/8, protocol=all'' \<and>
   ''dst-network=192.0.2.0/24, src-network=10.0.0.0/8, protocol=all''
   = join '', '' (field (DST_NETWORK example_env) (Some ''192.0.2.0/24'')
       @ field (SRC_NETWORK example_env) (Some ''10.0.0.0/8'')
       @ field (PROTOCOL example_env) (Some ''all''))"
proof -
  let ?f = "[(''src-network'', PStr ''10.0.0.0/8''), (''dst-port'', PInt 80), (''flowid'', PStr ''1:10'')]"
  let ?g = "[(''flowid'', PStr ''1:20''), (''dst-port'', PInt 80), (''src-network'', PStr ''10.0.0.0/8'')]"
  let ?k = "''src-network=10.0.0.0/8, dst-port=80''"
  let ?h = "[(''handle'', PInt 100)]"
  let ?M = "[\<lparr>mark_id = 7, source = PNone, destination = ''198.51.100.0/24'', protocol = ''udp''\<rparr>,
      \<lparr>mark_id = 100, source = PStr ''10.0.0.0/8'', destination = ''192.0.2.0/24'', protocol = ''all''\<rparr>]"
  let ?kh = "''dst-network=192.0.2.0/24, src-network=10.0.0.0/8, protocol=all''"
  have agree: "\<forall>n\<in>set [HANDLE example_env, SRC_NETWORK example_env, DST_NETWORK example_env,
      SRC_PORT example_env, DST_PORT example_env, PROTOCOL example_env]. map_of ?f n = map_of ?g n"
    by (simp add: example_env_def)
  have nh: "\<not> dict_in (HANDLE example_env) ?f"
    by (simp add: dict_in_def example_env_def)
  have key: "get_filter_key example_env [] ?f = Inr ?k"
    by (simp add: key_eval)
  have hh: "dict_in (HANDLE example_env) ?h"
    by (simp add: dict_in_def example_env_def)
  have keyh: "get_filter_key example_env ?M ?h = Inr ?kh"
    by (simp add: key_eval)
  note t = filter_key_deterministic_ordered [of example_env ?f ?g "[]" ?k]
  note th = filter_key_deterministic_ordered [of example_env ?h ?h ?M ?kh]
  from t [THEN conjunct1, THEN mp, OF agree]
  have c1: "get_filter_key example_env [] ?f = get_filter_key example_env [] ?g" .
  from t [THEN conjunct2, THEN conjunct1, THEN mp, OF conjI [OF nh key]]
  have c2: "?k = ordered_key example_env (Some ''10.0.0.0/8'') None None (Some ''80'') None"
    by (simp add: dict_get_def example_env_def src_attr_def str_attr_def port_attr_def
        rstrip_def is_space_def format_d_def digits.simps digit_char_def
        ordered_key_def field_def)
  from th [THEN conjunct2, THEN conjunct2, THEN mp, OF conjI [OF hh keyh]]
  have c3: "?kh = join '', '' (field (DST_NETWORK example_env) (Some ''192.0.2.0/24'')
       @ field (SRC_NETWORK example_env) (Some ''10.0.0.0/8'')
       @ field (PROTOCOL example_env) (Some ''all''))"
    by (simp add: dict_get_def example_env_def Integer_convert_def str_attr_def
        rstrip_def is_space_def field_def)
  from c1 key c2 hh keyh c3 show ?thesis by blast
qed

text \<open>
  C3, as the claim states it, fails for a record with a handle: the key of the matched
  mangle rule has the destination network before the source network.
\<close>

theorem handle_key_order_counterexample:
  "get_filter_key example_env
     [\<lparr>mark_id = 100, source = PStr ''10.0.0.0/8'', destination = ''192.0.2.0/24'', protocol = ''all''\<rparr>]
     [(''handle'', PInt 100)]
   = Inr ''dst-network=192.0.2.0/24, src-network=10.0.0.0/8, protocol=all'' \<and>
   ordered_key example_env (Some ''10.0.0.0/8'') (Some ''192.0.2.0/24'') None None (Some ''all'')
   = ''src-network=10.0.0.0/8, dst-network=192.0.2.0/24, protocol=all''"
  by (simp add: key_eval ordered_key_def field_def)

section \<open>The join leaves the parsed records as they are\<close>

lemma h_strip_qdisc_param_eq:
  "h_strip_qdisc_param X h a =
     (fresh h, \<lparr>cells = (cells h)(fresh h := strip_qdisc_param X (cells h a)),
                fresh = Suc (fresh h)\<rparr>)"
  by (simp add: h_strip_qdisc_param_def h_deepcopy_def h_new_def h_del_def
      strip_qdisc_param_def Let_def dict_in_keys)

lemma h_qdisc_loop_refines:
  assumes "sr < fresh h" and "f < fresh h" and "f \<noteq> sr"
    and "\<forall>q\<in>set qs. q < fresh h \<and> q \<noteq> sr"
  shows "fresh h \<le> fresh (h_qdisc_loop X f qs sr h) \<and>
         (\<forall>a<fresh h. a \<noteq> sr \<longrightarrow> cells (h_qdisc_loop X f qs sr h) a = cells h a) \<and>
         cells (h_qdisc_loop X f qs sr h) sr
           = qdisc_loop X (cells h f) (map (cells h) qs) (cells h sr)"
  using assms
proof (induction qs arbitrary: h)
  case Nil
  then show ?case by simp
next
  case (Cons q qs)
  from Cons.prems have q: "q < fresh h" "q \<noteq> sr"
    and rest: "\<forall>q\<in>set qs. q < fresh h \<and> q \<noteq> sr" by auto
  show ?case
  proof (cases "id_matches X (cells h f) (dict_get (cells h q) (PARENT X))")
    case False
    with Cons.IH [OF Cons.prems(1-3) rest] show ?thesis by simp
  next
    case True
    define h2 where "h2 = h_update \<lparr>cells = (cells h)(fresh h := strip_qdisc_param X (cells h q)),
      fresh = Suc (fresh h)\<rparr> sr (fresh h)"
    have step: "h_qdisc_loop X f (q # qs) sr h = h_qdisc_loop X f qs sr h2"
      using True by (simp add: h_strip_qdisc_param_eq h2_def)
    have fr: "fresh h2 = Suc (fresh h)" by (simp add: h2_def h_update_def)
    have c2: "cells h2 = (cells h)(fresh h := strip_qdisc_param X (cells h q),
        sr := dict_update (cells h sr) (strip_qdisc_param X (cells h q)))"
      using Cons.prems(1) by (auto simp: h2_def h_update_def fun_eq_iff)
    have p: "sr < fresh h2" "f < fresh h2" "\<forall>q\<in>set qs. q < fresh h2 \<and> q \<noteq> sr"
      using Cons.prems(1,2) rest by (auto simp: fr)
    note ih = Cons.IH [OF p(1) p(2) Cons.prems(3) p(3)]
    have same: "cells h2 f = cells h f" "map (cells h2) qs = map (cells h) qs"
      using Cons.prems(2,3) rest by (auto simp: c2)
    have sr2: "cells h2 sr = dict_update (cells h sr) (strip_qdisc_param X (cells h q))"
      by (simp add: c2)
    have old: "\<forall>a<fresh h. a \<noteq> sr \<longrightarrow> cells h2 a = cells h a"
      by (simp add: c2)
    from ih old show ?thesis
      unfolding step same sr2
      using True by (auto simp: fr)
  qed
qed

lemma h_class_loop_refines:
  assumes "sr < fresh h" and "f < fresh h" and "f \<noteq> sr"
    and "\<forall>c\<in>set cs. c < fresh h \<and> c \<noteq> sr"
  shows "fresh h \<le> fresh (snd (h_class_loop X f cs sr h)) \<and>
         (\<forall>a<fresh h. a \<noteq> sr \<longrightarrow> cells (snd (h_class_loop X f cs sr h)) a = cells h a) \<and>
         class_loop X (cells h f) (map (cells h) cs) (cells h sr)
           = (case fst (h_class_loop X f cs sr h) of
                None \<Rightarrow> Inr (cells (snd (h_class_loop X f cs sr h)) sr)
              | Some e \<Rightarrow> Inl e)"
  using assms
proof (induction cs arbitrary: h)
  case Nil
  then show ?case by simp
next
  case (Cons c cs)
  from Cons.prems have c: "c < fresh h" "c \<noteq> sr"
    and rest: "\<forall>c\<in>set cs. c < fresh h \<and> c \<noteq> sr" by auto
  show ?case
  proof (cases "id_matches X (cells h f) (dict_get (cells h c) (CLASS_ID X))")
    case False
    then have step: "h_class_loop X f (c # cs) sr h = h_class_loop X f cs sr h" by simp
    from False Cons.IH [OF Cons.prems(1-3) rest] show ?thesis
      unfolding step by simp
  next
    case True
    show ?thesis
    proof (cases "dict_in (CLASS_ID X) (cells h c)")
      case False
      with True show ?thesis
        by (simp add: h_deepcopy_def h_new_def h_del_def)
    next
      case has: True
      define h2 where "h2 = h_update \<lparr>cells = (cells h)(fresh h := AList.delete (CLASS_ID X) (cells h c)),
        fresh = Suc (fresh h)\<rparr> sr (fresh h)"
      have step: "h_class_loop X f (c # cs) sr h = h_class_loop X f cs sr h2"
        using True has by (simp add: h_deepcopy_def h_new_def h_del_def h2_def)
      have fr: "fresh h2 = Suc (fresh h)" by (simp add: h2_def h_update_def)
      have c2: "cells h2 = (cells h)(fresh h := AList.delete (CLASS_ID X) (cells h c),
          sr := dict_update (cells h sr) (AList.delete (CLASS_ID X) (cells h c)))"
        using Cons.prems(1) by (auto simp: h2_def h_update_def fun_eq_iff)
      have p: "sr < fresh h2" "f < fresh h2" "\<forall>c\<in>set cs. c < fresh h2 \<and> c \<noteq> sr"
        using Cons.prems(1,2) rest by (auto simp: fr)
      note ih = Cons.IH [OF p(1) p(2) Cons.prems(3) p(3)]
      have same: "cells h2 f = cells h f" "map (cells h2) cs = map (cells h) cs"
        using Cons.prems(2,3) rest by (auto simp: c2)
      have sr2: "cells h2 sr = dict_update (cells h sr) (AList.delete (CLASS_ID X) (cells h c))"
        by (simp add: c2)
      have old: "\<forall>a<fresh h. a \<noteq> sr \<longrightarrow> cells h2 a = cells h a"
        by (simp add: c2)
      from ih old show ?thesis
        unfolding step same sr2
        using True has by (auto simp: fr)
    qed
  qed
qed

lemma deref_update:
  "deref h (AList.update k a srm) = AList.update k (cells h a) (deref h srm)"
  by (induction srm) (auto simp: deref_def)

lemma deref_same:
  "\<forall>a\<in>snd ` set srm. cells h' a = cells h a \<Longrightarrow> deref h' srm = deref h srm"
  by (induction srm) (auto simp: deref_def)

lemma snd_set_update: "snd ` set (AList.update k a srm) \<subseteq> insert a (snd ` set srm)"
  by (induction srm) auto

lemma map_cells_same:
  "\<forall>a<n. cells h' a = cells h a \<Longrightarrow> \<forall>a\<in>set xs. a < n \<Longrightarrow> map (cells h') xs = map (cells h) xs"
  by (induction xs) auto

lemma deref_below:
  "\<forall>a<n. cells h' a = cells h a \<Longrightarrow> \<forall>a\<in>snd ` set srm. a < n \<Longrightarrow> deref h' srm = deref h srm"
  by (rule deref_same) auto

lemma h_filter_loop_refines:
  assumes "\<forall>a\<in>set cs \<union> set qs \<union> set fs \<union> snd ` set srm. a < fresh h"
  shows "fresh h \<le> fresh (snd (h_filter_loop X M cs qs fs srm h)) \<and>
         (\<forall>a<fresh h. cells (snd (h_filter_loop X M cs qs fs srm h)) a = cells h a) \<and>
         (case fst (h_filter_loop X M cs qs fs srm h) of
            Inl e \<Rightarrow>
              filter_loop X M (map (cells h) cs) (map (cells h) qs) (map (cells h) fs) (deref h srm)
                = Inl e
          | Inr srm' \<Rightarrow>
              (\<forall>a\<in>snd ` set srm'. a < fresh (snd (h_filter_loop X M cs qs fs srm h))) \<and>
              filter_loop X M (map (cells h) cs) (map (cells h) qs) (map (cells h) fs) (deref h srm)
                = Inr (deref (snd (h_filter_loop X M cs qs fs srm h)) srm'))"
  using assms
proof (induction fs arbitrary: srm h)
  case Nil
  then show ?case by simp
next
  case (Cons f fs)
  let ?C = "map (cells h) cs" and ?Q = "map (cells h) qs" and ?F = "map (cells h) fs"
  define sr where "sr = fresh h"
  define h0 where "h0 = \<lparr>cells = (cells h)(fresh h := []), fresh = Suc (fresh h)\<rparr>"
  from Cons.prems have f: "f < fresh h" and cs: "\<forall>a\<in>set cs. a < fresh h"
    and qs: "\<forall>a\<in>set qs. a < fresh h" and fs: "\<forall>a\<in>set fs. a < fresh h"
    and srm: "\<forall>a\<in>snd ` set srm. a < fresh h" by auto
  have new: "h_new h [] = (sr, h0)" by (simp add: h_new_def sr_def h0_def)
  have fr0: "fresh h0 = Suc (fresh h)" by (simp add: h0_def)
  have old0: "\<forall>a<fresh h. cells h0 a = cells h a" by (simp add: h0_def)
  have sr0: "cells h0 sr = []" by (simp add: h0_def sr_def)
  have f0: "cells h0 f = cells h f" using f old0 by simp
  show ?case
  proof (cases "get_filter_key X M (cells h f)")
    case (Inl e)
    then show ?thesis by (simp add: new f0 fr0 old0)
  next
    case (Inr k)
    show ?thesis
    proof (cases "is_null_string (PStr k)")
      case True
      have step: "h_filter_loop X M cs qs (f # fs) srm h = h_filter_loop X M cs qs fs srm h0"
        using Inr True by (simp add: new f0)
      have pre: "\<forall>a\<in>set cs \<union> set qs \<union> set fs \<union> snd ` set srm. a < fresh h0"
        using cs qs fs srm by (auto simp: fr0)
      have pure: "filter_loop X M ?C ?Q (map (cells h) (f # fs)) (deref h srm)
          = filter_loop X M (map (cells h0) cs) (map (cells h0) qs) (map (cells h0) fs) (deref h0 srm)"
        using Inr True
        by (simp add: map_cells_same [OF old0 cs] map_cells_same [OF old0 qs]
            map_cells_same [OF old0 fs] deref_below [OF old0 srm])
      from Cons.IH [OF pre] old0 show ?thesis
        unfolding step pure by (auto simp: fr0)
    next
      case False
      define hq where "hq = h_qdisc_loop X f qs sr h0"
      have q: "fresh h0 \<le> fresh hq"
        "\<forall>a<fresh h0. a \<noteq> sr \<longrightarrow> cells hq a = cells h0 a"
        "cells hq sr = qdisc_loop X (cells h0 f) (map (cells h0) qs) (cells h0 sr)"
      proof -
        have "sr < fresh h0" "f < fresh h0" "f \<noteq> sr" "\<forall>q\<in>set qs. q < fresh h0 \<and> q \<noteq> sr"
          using f qs by (auto simp: sr_def fr0)
        from h_qdisc_loop_refines [OF this, of X]
        show "fresh h0 \<le> fresh hq"
          "\<forall>a<fresh h0. a \<noteq> sr \<longrightarrow> cells hq a = cells h0 a"
          "cells hq sr = qdisc_loop X (cells h0 f) (map (cells h0) qs) (cells h0 sr)"
          by (simp_all add: hq_def)
      qed
      have oldq: "\<forall>a<fresh h. cells hq a = cells h a"
        using q(2) old0 by (auto simp: sr_def fr0)
      have srq: "cells hq sr = qdisc_loop X (cells h f) ?Q []"
        by (simp add: q(3) f0 sr0 map_cells_same [OF old0 qs])
      define R where "R = h_class_loop X f cs sr hq"
      have c: "fresh hq \<le> fresh (snd R)"
        "\<forall>a<fresh hq. a \<noteq> sr \<longrightarrow> cells (snd R) a = cells hq a"
        "class_loop X (cells hq f) (map (cells hq) cs) (cells hq sr)
           = (case fst R of None \<Rightarrow> Inr (cells (snd R) sr) | Some e \<Rightarrow> Inl e)"
      proof -
        have "sr < fresh hq" "f < fresh hq" "f \<noteq> sr" "\<forall>c\<in>set cs. c < fresh hq \<and> c \<noteq> sr"
          using f cs q(1) by (auto simp: sr_def fr0)
        from h_class_loop_refines [OF this, of X]
        show "fresh hq \<le> fresh (snd R)"
          "\<forall>a<fresh hq. a \<noteq> sr \<longrightarrow> cells (snd R) a = cells hq a"
          "class_loop X (cells hq f) (map (cells hq) cs) (cells hq sr)
             = (case fst R of None \<Rightarrow> Inr (cells (snd R) sr) | Some e \<Rightarrow> Inl e)"
          unfolding R_def by simp_all
      qed
      have oldR: "\<forall>a<fresh h. cells (snd R) a = cells h a"
        using c(2) oldq q(1) by (auto simp: sr_def fr0)
      have frR: "Suc (fresh h) \<le> fresh (snd R)"
        using c(1) q(1) by (simp add: fr0)
      have rule: "shaping_rule_of X ?C ?Q (cells h f)
           = (case fst R of None \<Rightarrow> Inr (cells (snd R) sr) | Some e \<Rightarrow> Inl e)"
        using c(3) f
        by (simp add: shaping_rule_of_def srq oldq map_cells_same [OF oldq cs])
      show ?thesis
      proof (cases "fst R")
        case (Some e)
        then have step: "h_filter_loop X M cs qs (f # fs) srm h = (Inl e, snd R)"
          using Inr False
          by (cases R) (simp add: new f0 hq_def [symmetric] R_def [symmetric])
        from Some rule Inr False oldR frR show ?thesis
          unfolding step by simp
      next
        case None
        define srm2 where "srm2 = (if cells (snd R) sr = [] then srm else AList.update k sr srm)"
        have step: "h_filter_loop X M cs qs (f # fs) srm h
            = h_filter_loop X M cs qs fs srm2 (snd R)"
          using Inr False None
          by (cases R) (simp add: new f0 hq_def [symmetric] R_def [symmetric] srm2_def)
        have srm2: "\<forall>a\<in>snd ` set srm2. a < fresh (snd R)"
        proof
          fix a
          assume "a \<in> snd ` set srm2"
          then have "a = sr \<or> a \<in> snd ` set srm"
            using snd_set_update [of k sr srm] by (cases "cells (snd R) sr = []") (auto simp: srm2_def)
          with srm frR show "a < fresh (snd R)" by (auto simp: sr_def)
        qed
        have pre: "\<forall>a\<in>set cs \<union> set qs \<union> set fs \<union> snd ` set srm2. a < fresh (snd R)"
          using cs qs fs srm2 frR by auto
        have d2: "deref (snd R) srm2
            = (if cells (snd R) sr = [] then deref h srm
               else AList.update k (cells (snd R) sr) (deref h srm))"
          by (simp add: srm2_def deref_update deref_below [OF oldR srm])
        have pure: "filter_loop X M ?C ?Q (map (cells h) (f # fs)) (deref h srm)
            = filter_loop X M (map (cells (snd R)) cs) (map (cells (snd R)) qs)
                (map (cells (snd R)) fs) (deref (snd R) srm2)"
          using Inr False None rule
          by (simp add: d2 map_cells_same [OF oldR cs] map_cells_same [OF oldR qs]
              map_cells_same [OF oldR fs])
        from Cons.IH [OF pre] oldR frR show ?thesis
          unfolding step pure by auto
      qed
    qed
  qed
qed

text \<open>
  C10. The join works on copies. Every dictionary object that exists when the loop over
  the filters starts, so every parsed qdisc, class and filter record, holds the same
  items when the loop has ended or raised, the keys parent, handle and class id among
  them. And what the loop returns is what the join gives on the records as they were
  parsed: a record that matches several filters gives all of its parameters to each.
\<close>

theorem join_leaves_records_unchanged:
  assumes "\<forall>a\<in>set cs \<union> set qs \<union> set fs. a < fresh h"
  shows "(\<forall>a<fresh h. cells (snd (h_filter_loop X M cs qs fs [] h)) a = cells h a) \<and>
         map_sum id (deref (snd (h_filter_loop X M cs qs fs [] h)))
             (fst (h_filter_loop X M cs qs fs [] h))
           = filter_loop X M (map (cells h) cs) (map (cells h) qs) (map (cells h) fs) []"
proof -
  from assms have "\<forall>a\<in>set cs \<union> set qs \<union> set fs \<union> snd ` set []. a < fresh h" by simp
  from h_filter_loop_refines [OF this, of X M]
  show ?thesis
    by (cases "fst (h_filter_loop X M cs qs fs [] h)") (simp_all add: deref_def)
qed

theorem join_leaves_records_unchanged_witness:
  "cells (snd (h_filter_loop example_env [] [1] [0] [2, 3] [] example_heap)) 0
     = [(''parent'', PStr ''1:10''), (''handle'', PStr ''8001:''), (''delay'', PStr ''100ms'')] \<and>
   cells (snd (h_filter_loop example_env [] [1] [0] [2, 3] [] example_heap)) 1
     = [(''classid'', PStr ''1:10''), (''rate'', PStr ''1Mbit'')] \<and>
   map_sum id (deref (snd (h_filter_loop example_env [] [1] [0] [2, 3] [] example_heap)))
       (fst (h_filter_loop example_env [] [1] [0] [2, 3] [] example_heap))
     = Inr [(''dst-network=192.0.2.0/24'', [(''delay'', PStr ''100ms''), (''rate'', PStr ''1Mbit'')]),
            (''dst-network=198.51.100.0/24'', [(''delay'', PStr ''100ms''), (''rate'', PStr ''1Mbit'')])]"
proof -
  have a: "\<forall>a\<in>set [1] \<union> set [0] \<union> set [2, 3]. a < fresh example_heap"
    by (simp add: example_heap_def)
  note inst = join_leaves_records_unchanged [OF a, of example_env "[]"]
  have pure: "filter_loop example_env [] (map (cells example_heap) [1])
      (map (cells example_heap) [0]) (map (cells example_heap) [2, 3]) []
    = Inr [(''dst-network=192.0.2.0/24'', [(''delay'', PStr ''100ms''), (''rate'', PStr ''1Mbit'')]),
           (''dst-network=198.51.100.0/24'', [(''delay'', PStr ''100ms''), (''rate'', PStr ''1Mbit'')])]"
    by (simp add: example_heap_def key_eval join_eval)
  from inst have "cells (snd (h_filter_loop example_env [] [1] [0] [2, 3] [] example_heap)) 0
      = cells example_heap 0"
    and "cells (snd (h_filter_loop example_env [] [1] [0] [2, 3] [] example_heap)) 1
      = cells example_heap 1"
    by (simp_all add: example_heap_def del: h_filter_loop.simps)
  moreover from inst pure
  have "map_sum id (deref (snd (h_filter_loop example_env [] [1] [0] [2, 3] [] example_heap)))
       (fst (h_filter_loop example_env [] [1] [0] [2, 3] [] example_heap))
     = Inr [(''dst-network=192.0.2.0/24'', [(''delay'', PStr ''100ms''), (''rate'', PStr ''1Mbit'')]),
            (''dst-network=198.51.100.0/24'', [(''delay'', PStr ''100ms''), (''rate'', PStr ''1Mbit'')])]"
    by (simp only:)
  ultimately show ?thesis by (simp add: example_heap_def del: h_filter_loop.simps)
qed

end
